theory Spec2Isabelle
  imports Main "HOL-Library.AList"
begin

section \<open>JavaScript strings\<close>

text \<open>
  A JavaScript string is a sequence of UTF-16 code units, and \<^verbatim>\<open>length\<close>,
  \<^verbatim>\<open>indexOf\<close> and \<^verbatim>\<open>substring\<close> count code units. A code unit is modelled by
  its number, so that the default title of the cache (which is Chinese) and the
  letters whose lower case has another length can be written down. An ASCII literal
  of the source is written \<open>lit ''...''\<close>.
\<close>

type_synonym jsstring = "nat list"

definition lit :: "string \<Rightarrow> jsstring" where
  "lit s = map of_char s"

text \<open>
  \<^verbatim>\<open>String.prototype.toLowerCase\<close>. The case table is written out for Basic Latin,
  for the Latin-1 Supplement and for U+0130 (capital I with dot above), the one code
  point whose lower case is longer than itself: it becomes U+0069 U+0307. On strings
  of these units the table is the function of JavaScript, which maps them unit by unit
  whatever stands around them. Every other unit is left as it is here, which is right
  for the uncased scripts only: the cased letters of further scripts (Greek, Cyrillic,
  the Kelvin sign, the final sigma that depends on its context) are not in the table.
  A theorem below that is stated for all strings uses nothing of the table; a theorem
  that uses the table is stated for strings of units below 256, or at given strings of
  units that the table covers.
\<close>

definition lowerUnit :: "nat \<Rightarrow> nat list" where
  "lowerUnit c =
     (if 65 \<le> c \<and> c \<le> 90 then [c + 32]
      else if 192 \<le> c \<and> c \<le> 222 \<and> c \<noteq> 215 then [c + 32]
      else if c = 304 then [105, 775]
      else [c])"

definition toLowerCase :: "jsstring \<Rightarrow> jsstring" where
  "toLowerCase s = concat (map lowerUnit s)"

text \<open>\<^verbatim>\<open>s.startsWith(q)\<close> and \<^verbatim>\<open>s.endsWith(q)\<close>.\<close>

fun startsWith :: "jsstring \<Rightarrow> jsstring \<Rightarrow> bool" where
  "startsWith s [] = True"
| "startsWith [] (q # qs) = False"
| "startsWith (c # cs) (q # qs) = (c = q \<and> startsWith cs qs)"

definition endsWith :: "jsstring \<Rightarrow> jsstring \<Rightarrow> bool" where
  "endsWith s q = startsWith (rev s) (rev q)"

text \<open>
  \<^verbatim>\<open>s.indexOf(q)\<close>: the least position at which \<open>q\<close> starts in \<open>s\<close>, and \<open>-1\<close> when
  there is none. \<open>indexFrom s q i\<close> searches the rest \<open>s\<close> of the string, which starts at
  position \<open>i\<close>. \<^verbatim>\<open>s.includes(q)\<close> is the same search, asked whether it finds a position.
\<close>

fun indexFrom :: "jsstring \<Rightarrow> jsstring \<Rightarrow> int \<Rightarrow> int" where
  "indexFrom [] q i = (if startsWith [] q then i else - 1)"
| "indexFrom (c # cs) q i = (if startsWith (c # cs) q then i else indexFrom cs q (i + 1))"

definition indexOf :: "jsstring \<Rightarrow> jsstring \<Rightarrow> int" where
  "indexOf s q = indexFrom s q 0"

definition includesStr :: "jsstring \<Rightarrow> jsstring \<Rightarrow> bool" where
  "includesStr s q = (indexOf s q \<noteq> - 1)"

text \<open>
  \<^verbatim>\<open>s.substring(a, b)\<close>: both arguments are clamped to \<open>[0, length s]\<close>, and they are
  swapped when the first is the larger.
\<close>

definition clampIndex :: "jsstring \<Rightarrow> int \<Rightarrow> nat" where
  "clampIndex s a = nat (min (max a 0) (int (length s)))"

definition substring :: "jsstring \<Rightarrow> int \<Rightarrow> int \<Rightarrow> jsstring" where
  "substring s a b =
     (let from = min (clampIndex s a) (clampIndex s b);
          to = max (clampIndex s a) (clampIndex s b)
      in take (to - from) (drop from s))"

text \<open>
  \<^verbatim>\<open>s.trim()\<close> removes white space and line terminators at both ends. Of the units
  the case table covers these are tab, line feed, vertical tab, form feed, carriage
  return, space and the no-break space; the others are listed by their numbers.
\<close>

definition isWhiteSpace :: "nat \<Rightarrow> bool" where
  "isWhiteSpace c =
     (c \<in> set [9, 10, 11, 12, 13, 32, 160, 5760, 8232, 8233, 8239, 8287, 12288, 65279]
      \<or> (8192 \<le> c \<and> c \<le> 8202))"

definition trim :: "jsstring \<Rightarrow> jsstring" where
  "trim s = rev (dropWhile isWhiteSpace (rev (dropWhile isWhiteSpace s)))"

section \<open>The data model\<close>

record DocSection =
  id' :: jsstring
  title :: jsstring
  content :: jsstring
  url :: jsstring

record SearchResult =
  sectionId :: jsstring
  sectionTitle :: jsstring
  matchedContent :: jsstring
  resultUrl :: jsstring

section \<open>Search over the sections of the cache\<close>

text \<open>
  The body of the loop of \<^verbatim>\<open>search\<close>: whether a section matches, and the excerpt
  \<^verbatim>\<open>matchedContent\<close> computed for a section that does. \<open>index\<close> is a position in the
  lower-cased content; \<open>start\<close> and \<open>end\<close> are used on the content itself.
\<close>

definition sectionMatches :: "jsstring \<Rightarrow> DocSection \<Rightarrow> bool" where
  "sectionMatches query section =
     (includesStr (toLowerCase (title section)) (toLowerCase query)
      \<or> includesStr (toLowerCase (content section)) (toLowerCase query))"

definition excerptOf :: "jsstring \<Rightarrow> DocSection \<Rightarrow> jsstring" where
  "excerptOf query section =
     (let lowerQuery = toLowerCase query;
          contentLower = toLowerCase (content section);
          index = indexOf contentLower lowerQuery
      in if index \<noteq> - 1 then
           (let start = max 0 (index - 100);
                end = min (int (length (content section))) (index + int (length query) + 100);
                m0 = substring (content section) start end;
                m1 = (if start > 0 then lit ''...'' @ m0 else m0)
            in if end < int (length (content section)) then m1 @ lit ''...'' else m1)
         else substring (content section) 0 200 @ lit ''...'')"

definition resultOf :: "jsstring \<Rightarrow> DocSection \<Rightarrow> SearchResult" where
  "resultOf query section =
     \<lparr> sectionId = id' section, sectionTitle = title section,
       matchedContent = excerptOf query section, resultUrl = url section \<rparr>"

fun searchSections :: "jsstring \<Rightarrow> DocSection list \<Rightarrow> SearchResult list" where
  "searchSections query [] = []"
| "searchSections query (section # rest) =
     (if sectionMatches query section
      then resultOf query section # searchSections query rest
      else searchSections query rest)"

section \<open>The world outside the cache\<close>

text \<open>
  The cache reaches the network through \<^verbatim>\<open>curl\<close>, reads markup through the
  \<^verbatim>\<open>cheerio\<close> library, resolves links with \<^verbatim>\<open>new URL\<close> and keeps files in a
  directory under \<^verbatim>\<open>os.tmpdir()\<close>. None of these is code of the repository; they are
  the fields of an environment:
  \<^item> \<open>curl u\<close> is the output of \<^verbatim>\<open>curl -s u\<close>, and \<open>None\<close> when the command fails
    (the promise of \<^verbatim>\<open>fetchUrl\<close> is rejected);
  \<^item> \<open>cheerioLinks html selector\<close> are the elements \<^verbatim>\<open>$(selector)\<close> of the document
    loaded from \<open>html\<close>, in document order, each with its \<^verbatim>\<open>attr("href")\<close> (\<open>None\<close>
    when it has none) and its \<^verbatim>\<open>text()\<close>;
  \<^item> \<open>cheerioText html selector\<close> is \<open>None\<close> when \<^verbatim>\<open>$(selector)\<close> has no element, and
    the \<^verbatim>\<open>text()\<close> of the selection otherwise;
  \<^item> \<open>newURL href\<close> is \<^verbatim>\<open>new URL(href, BASE_URL).toString()\<close>, and \<open>None\<close> when the
    constructor throws because \<open>href\<close> cannot be parsed against the base
    (\<^verbatim>\<open>new URL("//", "https://wproxy.org/whistle/")\<close> throws: the host is missing);
  \<^item> \<open>tmpdir\<close> is \<^verbatim>\<open>os.tmpdir()\<close>, an absolute path given by its segments;
  \<^item> \<open>canWrite path\<close>, \<open>canUnlink path\<close> and \<open>canReaddir\<close> say whether
    \<^verbatim>\<open>writeFileSync\<close> and \<^verbatim>\<open>unlinkSync\<close> of that path and \<^verbatim>\<open>readdirSync\<close> of the cache
    directory succeed; they throw otherwise (as \<^verbatim>\<open>writeFileSync\<close> does when the
    directory of the path does not exist).

  One environment stands for the world during one call of an operation of the cache;
  two calls may meet different environments.
\<close>

record Link =
  href :: "jsstring option"
  linkText :: jsstring

type_synonym Path = "jsstring list"

record Env =
  curl :: "jsstring \<Rightarrow> jsstring option"
  cheerioLinks :: "jsstring \<Rightarrow> jsstring \<Rightarrow> Link list"
  cheerioText :: "jsstring \<Rightarrow> jsstring \<Rightarrow> jsstring option"
  newURL :: "jsstring \<Rightarrow> jsstring option"
  tmpdir :: Path
  canWrite :: "Path \<Rightarrow> bool"
  canUnlink :: "Path \<Rightarrow> bool"
  canReaddir :: bool

text \<open>
  The paths are those of POSIX, on a file system that tells two names apart when
  their units differ. A path is absolute and normalised, and stands here as the list
  of its segments from the root; \<^verbatim>\<open>os.tmpdir()\<close> is such a path.
  \<^verbatim>\<open>path.join(CACHE_DIR, name)\<close> walks through the segments of \<open>name\<close>, the parts
  between its slashes (unit 47): an empty segment and \<^verbatim>\<open>.\<close> change nothing, \<^verbatim>\<open>..\<close>
  leaves the last directory (the root has none to leave), and any other segment is
  entered. So \<^verbatim>\<open>./rules.json\<close> and \<^verbatim>\<open>rules.json\<close> name one file, and \<^verbatim>\<open>../x.json\<close>
  names a file outside the cache directory. Every name that the program joins to the
  cache directory ends in \<^verbatim>\<open>.json\<close>, so the slash that \<^verbatim>\<open>path.join\<close> keeps at the end
  of a name does not occur. The names are ids and names of entries: strings of a
  parsed page or of a listed directory, which are well-formed UTF-16 and hold no unit 0.
\<close>

fun segments :: "jsstring \<Rightarrow> jsstring list" where
  "segments [] = [[]]"
| "segments (c # cs) =
     (if c = 47 then [] # segments cs else (c # hd (segments cs)) # tl (segments cs))"

definition pushSegment :: "Path \<Rightarrow> jsstring \<Rightarrow> Path" where
  "pushSegment p s =
     (if s = [] \<or> s = lit ''.'' then p else if s = lit ''..'' then butlast p else p @ [s])"

definition CACHE_DIR :: "Env \<Rightarrow> Path" where
  "CACHE_DIR e = tmpdir e @ [lit ''whistle-docs-cache'']"

definition pathJoin :: "Env \<Rightarrow> jsstring \<Rightarrow> Path" where
  "pathJoin e name = foldl pushSegment (CACHE_DIR e) (segments name)"

definition cachePath :: "Env \<Rightarrow> jsstring \<Rightarrow> Path" where
  "cachePath e i = pathJoin e (i @ lit ''.json'')"

text \<open>A name that is one segment of a path: the name of an entry of a directory.\<close>

definition plainName :: "jsstring \<Rightarrow> bool" where
  "plainName n = (47 \<notin> set n \<and> n \<noteq> [] \<and> n \<noteq> lit ''.'' \<and> n \<noteq> lit ''..'')"

text \<open>
  The path of a record of the cache: a path that is the cache directory and one more segment, a
  name that ends in \<^verbatim>\<open>.json\<close>.
\<close>

definition jsonEntry :: "Env \<Rightarrow> Path \<Rightarrow> bool" where
  "jsonEntry e p = (p \<noteq> [] \<and> butlast p = CACHE_DIR e \<and> endsWith (last p) (lit ''.json''))"

text \<open>
  A file holds the JSON text of a section, or it is something that cannot be read and
  parsed: a file of another content, or a directory. The file system is the list of
  the files that exist, each with its path; a file is looked up by its path, and the
  order of the list means nothing.
\<close>

datatype FileData = Json DocSection | Garbage

type_synonym FileSystem = "(Path \<times> FileData) list"

text \<open>
  \<^verbatim>\<open>readdirSync(CACHE_DIR)\<close> lists the names of the entries of the cache directory:
  of every path of the file system that leads through the cache directory, the segment
  that follows the directory, which names a file or a directory in it. It lists each
  name once and sorted, in the order of \<^verbatim>\<open>strcmp\<close> on the UTF-8 bytes of the names,
  which is the order of their code points. A file outside the cache directory is not
  listed.
\<close>

fun codePoints :: "jsstring \<Rightarrow> nat list" where
  "codePoints (h # l # r) =
     (if 55296 \<le> h \<and> h < 56320 \<and> 56320 \<le> l \<and> l < 57344
      then (65536 + (h - 55296) * 1024 + (l - 56320)) # codePoints r
      else h # codePoints (l # r))"
| "codePoints [h] = [h]"
| "codePoints [] = []"

fun pointsLess :: "nat list \<Rightarrow> nat list \<Rightarrow> bool" where
  "pointsLess [] [] = False"
| "pointsLess [] (y # ys) = True"
| "pointsLess (x # xs) [] = False"
| "pointsLess (x # xs) (y # ys) = (x < y \<or> (x = y \<and> pointsLess xs ys))"

definition nameLess :: "jsstring \<Rightarrow> jsstring \<Rightarrow> bool" where
  "nameLess a b = pointsLess (codePoints a) (codePoints b)"

fun insertName :: "jsstring \<Rightarrow> jsstring list \<Rightarrow> jsstring list" where
  "insertName n [] = [n]"
| "insertName n (m # ms) = (if nameLess m n then m # insertName n ms else n # m # ms)"

definition entryNames :: "Env \<Rightarrow> FileSystem \<Rightarrow> jsstring list" where
  "entryNames e fs =
     map (\<lambda>p. p ! length (CACHE_DIR e))
       (filter (\<lambda>p. length (CACHE_DIR e) < length p \<and> take (length (CACHE_DIR e)) p = CACHE_DIR e)
          (map fst fs))"

definition readdirSync :: "Env \<Rightarrow> FileSystem \<Rightarrow> jsstring list" where
  "readdirSync e fs = foldr insertName (remdups (entryNames e fs)) []"

text \<open>
  The state of a \<^verbatim>\<open>WhistleDocsCache\<close>: its three fields (the \<^verbatim>\<open>Map\<close> as a list of
  entries in insertion order), the file system, and a log of the calls of
  \<^verbatim>\<open>fetchUrl\<close>, each with the place it was called from. The log is what the cache
  prints (\<^verbatim>\<open>Fetching URL: ...\<close>); nothing reads it.
\<close>

datatype Purpose = IndexPage | SectionPage

record State =
  sections :: "(jsstring \<times> DocSection) list"
  lastFetchTime :: int
  isInitialized :: bool
  files :: FileSystem
  fetchLog :: "(Purpose \<times> jsstring) list"

definition CACHE_TTL :: int where
  "CACHE_TTL = 3600000"

definition BASE_URL :: jsstring where
  "BASE_URL = lit ''https://wproxy.org/whistle/''"

text \<open>The state of a cache that was just constructed, over a given file system.\<close>

definition newCache :: "FileSystem \<Rightarrow> State" where
  "newCache fs =
     \<lparr> sections = [], lastFetchTime = 0, isInitialized = False, files = fs,
       fetchLog = [] \<rparr>"

datatype error = InitializationError

definition fetchUrl :: "Env \<Rightarrow> Purpose \<Rightarrow> jsstring \<Rightarrow> State \<Rightarrow> jsstring option \<times> State" where
  "fetchUrl e purpose u st = (curl e u, st\<lparr>fetchLog := fetchLog st @ [(purpose, u)]\<rparr>)"

text \<open>
  \<^verbatim>\<open>getCachedContent\<close>: a record that is read is also put into the map, under the id
  that the record itself carries. A file that is missing or cannot be read or parsed
  gives \<^verbatim>\<open>null\<close>.
\<close>

definition getCachedContent :: "Env \<Rightarrow> jsstring \<Rightarrow> State \<Rightarrow> DocSection option \<times> State" where
  "getCachedContent e i st =
     (case map_of (files st) (cachePath e i) of
        None \<Rightarrow> (None, st)
      | Some Garbage \<Rightarrow> (None, st)
      | Some (Json section) \<Rightarrow>
          (Some section, st\<lparr>sections := AList.update (id' section) section (sections st)\<rparr>))"

text \<open>\<^verbatim>\<open>saveCachedContent\<close>: a write that fails is logged and changes nothing.\<close>

definition saveCachedContent :: "Env \<Rightarrow> DocSection \<Rightarrow> State \<Rightarrow> State" where
  "saveCachedContent e section st =
     (if canWrite e (cachePath e (id' section))
      then st\<lparr>files := AList.update (cachePath e (id' section)) (Json section) (files st)\<rparr>
      else st)"

section \<open>Parsing the index page\<close>

definition selectors :: "jsstring list" where
  "selectors =
     [lit ''.sidebar-nav ul li a'', lit ''.sidebar ul li a'', lit ''nav ul li a'',
      lit ''#sidebar a'', lit ''.menu a'']"

text \<open>
  The loop over the selectors: the links of the first selector that has any, and
  \<open>None\<close> when \<^verbatim>\<open>foundLinks\<close> stays false.
\<close>

fun firstLinks :: "(jsstring \<Rightarrow> Link list) \<Rightarrow> jsstring list \<Rightarrow> Link list option" where
  "firstLinks doc [] = None"
| "firstLinks doc (selector # rest) =
     (if length (doc selector) > 0 then Some (doc selector) else firstLinks doc rest)"

text \<open>
  The test \<^verbatim>\<open>href && !href.startsWith("http") && !href.includes("#")\<close>, and the id
  \<^verbatim>\<open>href.replace(/^\/whistle\//, "").replace(/\.html$/, "") || "index"\<close>.
\<close>

definition validHref :: "jsstring option \<Rightarrow> bool" where
  "validHref h =
     (case h of
        None \<Rightarrow> False
      | Some s \<Rightarrow> s \<noteq> [] \<and> \<not> startsWith s (lit ''http'') \<and> \<not> includesStr s (lit ''#''))"

definition stripWhistle :: "jsstring \<Rightarrow> jsstring" where
  "stripWhistle s = (if startsWith s (lit ''/whistle/'') then drop 9 s else s)"

definition stripHtml :: "jsstring \<Rightarrow> jsstring" where
  "stripHtml s = (if endsWith s (lit ''.html'') then take (length s - 5) s else s)"

definition sectionIdOf :: "jsstring \<Rightarrow> jsstring" where
  "sectionIdOf s =
     (let i = stripHtml (stripWhistle s) in if i = [] then lit ''index'' else i)"

text \<open>
  The callback of \<^verbatim>\<open>links.each\<close>, over the links in order. A link that passes the test
  is pushed as a stub with empty content; when \<^verbatim>\<open>new URL\<close> throws, the loop is left
  and the stubs are lost (\<open>None\<close>).
\<close>

definition stubOf :: "jsstring \<Rightarrow> jsstring \<Rightarrow> jsstring \<Rightarrow> DocSection" where
  "stubOf s text u =
     \<lparr> id' = sectionIdOf s,
       title = (if trim text = [] then sectionIdOf s else trim text),
       content = [], url = u \<rparr>"

fun linkStubs :: "Env \<Rightarrow> Link list \<Rightarrow> DocSection list option" where
  "linkStubs e [] = Some []"
| "linkStubs e (l # ls) =
     (if validHref (href l) then
        (case newURL e (the (href l)) of
           None \<Rightarrow> None
         | Some u \<Rightarrow>
             (case linkStubs e ls of
                None \<Rightarrow> None
              | Some stubs \<Rightarrow> Some (stubOf (the (href l)) (linkText l) u # stubs)))
      else linkStubs e ls)"

text \<open>The default stub; its title is \<^verbatim>\<open>Whistle\<close>, a space and four Chinese characters.\<close>

definition defaultSection :: DocSection where
  "defaultSection =
     \<lparr> id' = lit ''index'', title = lit ''Whistle '' @ [25991, 26723, 39318, 39029],
       content = [], url = BASE_URL \<rparr>"

definition extractIndexSections :: "Env \<Rightarrow> jsstring \<Rightarrow> DocSection list option" where
  "extractIndexSections e html =
     (case firstLinks (cheerioLinks e html) selectors of
        None \<Rightarrow> Some [defaultSection]
      | Some links \<Rightarrow>
          (case linkStubs e links of
             None \<Rightarrow> None
           | Some stubs \<Rightarrow> Some (if stubs = [] then [defaultSection] else stubs)))"

section \<open>Fetching the sections\<close>

definition contentSelectors :: "jsstring list" where
  "contentSelectors =
     [lit ''#main'', lit ''.content'', lit ''article'', lit ''.markdown-body'', lit ''body'']"

fun firstContent :: "(jsstring \<Rightarrow> jsstring option) \<Rightarrow> jsstring list \<Rightarrow> jsstring" where
  "firstContent doc [] = []"
| "firstContent doc (selector # rest) =
     (case doc selector of
        Some text \<Rightarrow> trim text
      | None \<Rightarrow> firstContent doc rest)"

definition extractContent :: "Env \<Rightarrow> jsstring \<Rightarrow> jsstring" where
  "extractContent e sectionHtml =
     (let c = firstContent (cheerioText e sectionHtml) contentSelectors
      in if c = [] then
           (case cheerioText e sectionHtml (lit ''body'') of
              None \<Rightarrow> []
            | Some text \<Rightarrow> trim text)
         else c)"

text \<open>
  One turn of the loop over the stubs. The body stands in a \<^verbatim>\<open>try\<close>: when the fetch
  of the section fails, the error is logged and the stub is dropped.
\<close>

definition fetchSection :: "Env \<Rightarrow> DocSection \<Rightarrow> State \<Rightarrow> State" where
  "fetchSection e section st =
     (case getCachedContent e (id' section) st of
        (Some cachedSection, st1) \<Rightarrow>
          st1\<lparr>sections :=
            AList.update (id' section) (section\<lparr>content := content cachedSection\<rparr>) (sections st1)\<rparr>
      | (None, st1) \<Rightarrow>
          (case fetchUrl e SectionPage (url section) st1 of
             (None, st2) \<Rightarrow> st2
           | (Some sectionHtml, st2) \<Rightarrow>
               (let section' = section\<lparr>content := extractContent e sectionHtml\<rparr>;
                    st3 = saveCachedContent e section' st2
                in st3\<lparr>sections := AList.update (id' section) section' (sections st3)\<rparr>)))"

fun fetchSections :: "Env \<Rightarrow> DocSection list \<Rightarrow> State \<Rightarrow> State" where
  "fetchSections e [] st = st"
| "fetchSections e (section # rest) st = fetchSections e rest (fetchSection e section st)"

section \<open>The operations of the cache\<close>

text \<open>
  \<^verbatim>\<open>Date.now()\<close> is read twice in \<^verbatim>\<open>initialize\<close>: \<open>now\<close> is its value at the test of
  the time to live, \<open>done\<close> its value when the sections have been fetched. An error is
  thrown when the index page cannot be fetched, and also when parsing it throws.
\<close>

definition initialize :: "Env \<Rightarrow> int \<Rightarrow> int \<Rightarrow> State \<Rightarrow> (error + unit) \<times> State" where
  "initialize e now done st =
     (if isInitialized st \<and> now - lastFetchTime st < CACHE_TTL then (Inr (), st)
      else
        (case fetchUrl e IndexPage BASE_URL st of
           (None, st1) \<Rightarrow> (Inl InitializationError, st1)
         | (Some htmlContent, st1) \<Rightarrow>
             (case extractIndexSections e htmlContent of
                None \<Rightarrow> (Inl InitializationError, st1)
              | Some stubs \<Rightarrow>
                  (Inr (), (fetchSections e stubs st1)\<lparr>lastFetchTime := done, isInitialized := True\<rparr>))))"

definition getAllSections :: "Env \<Rightarrow> int \<Rightarrow> int \<Rightarrow> State \<Rightarrow> (error + DocSection list) \<times> State" where
  "getAllSections e now done st =
     (case initialize e now done st of
        (Inl err, st1) \<Rightarrow> (Inl err, st1)
      | (Inr _, st1) \<Rightarrow> (Inr (map snd (sections st1)), st1))"


definition search :: "Env \<Rightarrow> int \<Rightarrow> int \<Rightarrow> jsstring \<Rightarrow> State \<Rightarrow> (error + SearchResult list) \<times> State" where
  "search e now done query st =
     (case initialize e now done st of
        (Inl err, st1) \<Rightarrow> (Inl err, st1)
      | (Inr _, st1) \<Rightarrow> (Inr (searchSections query (map snd (sections st1))), st1))"

text \<open>
  \<^verbatim>\<open>refreshCache\<close>. The loop goes through the listed names and unlinks the path of
  each name that ends in \<^verbatim>\<open>.json\<close>. It stands inside one \<^verbatim>\<open>try\<close>: the first
  \<^verbatim>\<open>unlinkSync\<close> that throws ends the loop, and so does a \<^verbatim>\<open>readdirSync\<close> that throws;
  \<^verbatim>\<open>initialize\<close> is called in either case.
\<close>

fun unlinkFiles :: "Env \<Rightarrow> jsstring list \<Rightarrow> FileSystem \<Rightarrow> FileSystem" where
  "unlinkFiles e [] fs = fs"
| "unlinkFiles e (file # rest) fs =
     (if endsWith file (lit ''.json'') then
        (if canUnlink e (pathJoin e file)
         then unlinkFiles e rest (AList.delete (pathJoin e file) fs)
         else fs)
      else unlinkFiles e rest fs)"

definition clearCacheDir :: "Env \<Rightarrow> FileSystem \<Rightarrow> FileSystem" where
  "clearCacheDir e fs = (if canReaddir e then unlinkFiles e (readdirSync e fs) fs else fs)"

definition refreshCache :: "Env \<Rightarrow> int \<Rightarrow> int \<Rightarrow> State \<Rightarrow> (error + unit) \<times> State" where
  "refreshCache e now done st =
     initialize e now done
       (st\<lparr>isInitialized := False, sections := [], files := clearCacheDir e (files st)\<rparr>)"

section \<open>A sample site\<close>

text \<open>
  An environment for the examples: an index page with the two links of the scenario in
  its sidebar, and the two section pages. Its resolver appends a relative reference to
  the base and fails on \<^verbatim>\<open>//\<close>, as \<^verbatim>\<open>new URL\<close> does on these inputs. The directory of
  temporary files is \<^verbatim>\<open>/tmp\<close>.
\<close>

definition demoLinks :: "Link list" where
  "demoLinks =
     [\<lparr> href = Some (lit ''/whistle/rules.html''), linkText = lit ''Rules'' \<rparr>,
      \<lparr> href = Some (lit ''/whistle/plugins.html''), linkText = lit ''Plugins'' \<rparr>]"

definition rulesSection :: DocSection where
  "rulesSection =
     \<lparr> id' = lit ''rules'', title = lit ''Rules'',
       content = lit ''Map requests to operations.'',
       url = lit ''https://wproxy.org/whistle/rules.html'' \<rparr>"

definition pluginsSection :: DocSection where
  "pluginsSection =
     \<lparr> id' = lit ''plugins'', title = lit ''Plugins'',
       content = lit ''Whistle supports custom plugins for extension'',
       url = lit ''https://wproxy.org/whistle/plugins.html'' \<rparr>"

definition demoEnv :: Env where
  "demoEnv =
     \<lparr> curl = (\<lambda>u.
         if u = BASE_URL then Some (lit ''<index>'')
         else if u = lit ''https://wproxy.org/whistle/rules.html'' then Some (lit ''<rules>'')
         else if u = lit ''https://wproxy.org/whistle/plugins.html'' then Some (lit ''<plugins>'')
         else None),
       cheerioLinks = (\<lambda>html selector.
         if html = lit ''<index>'' \<and> selector = lit ''.sidebar ul li a'' then demoLinks else []),
       cheerioText = (\<lambda>html selector.
         if selector = lit ''.content'' \<and> html = lit ''<rules>''
         then Some (lit '' Map requests to operations. '')
         else if selector = lit ''.content'' \<and> html = lit ''<plugins>''
         then Some (lit ''Whistle supports custom plugins for extension'')
         else None),
       newURL = (\<lambda>h.
         if h = lit ''//'' then None
         else if startsWith h (lit ''/'') then Some (lit ''https://wproxy.org'' @ h)
         else Some (BASE_URL @ h)),
       tmpdir = [lit ''tmp''],
       canWrite = (\<lambda>path. True),
       canUnlink = (\<lambda>path. True),
       canReaddir = True \<rparr>"

text \<open>The state that a first \<^verbatim>\<open>initialize\<close> at time 0 reaches on the sample site.\<close>

definition crawledState :: State where
  "crawledState =
     \<lparr> sections = [(lit ''rules'', rulesSection), (lit ''plugins'', pluginsSection)],
       lastFetchTime = 0, isInitialized = True,
       files =
         [(cachePath demoEnv (lit ''rules''), Json rulesSection),
          (cachePath demoEnv (lit ''plugins''), Json pluginsSection)],
       fetchLog =
         [(IndexPage, BASE_URL), (SectionPage, url rulesSection),
          (SectionPage, url pluginsSection)] \<rparr>"

text \<open>
  The number of fetches of the index page that the log holds, and the part of the log
  of \<open>st'\<close> that was added after \<open>st\<close>.
\<close>

definition indexFetches :: "State \<Rightarrow> nat" where
  "indexFetches st = length (filter (\<lambda>entry. fst entry = IndexPage) (fetchLog st))"

definition fetchedSince :: "State \<Rightarrow> State \<Rightarrow> (Purpose \<times> jsstring) list" where
  "fetchedSince st st' = drop (length (fetchLog st)) (fetchLog st')"

text \<open>
  Variations of the sample site: a site whose menu holds a link that \<^verbatim>\<open>new URL\<close>
  rejects, the site with the page of the rules unreachable, the site with the network
  down, a file system that cannot be written, one whose file \<^verbatim>\<open>rules.json\<close> cannot
  be unlinked and one whose file \<^verbatim>\<open>plugins.json\<close> cannot. \<open>oldRules\<close> is a record of
  the rules with an earlier content.
\<close>

definition brokenLinkEnv :: Env where
  "brokenLinkEnv =
     demoEnv\<lparr>cheerioLinks := (\<lambda>html selector.
       if selector = lit ''.menu a'' then [\<lparr> href = Some (lit ''//''), linkText = lit ''Home'' \<rparr>]
       else [])\<rparr>"

text \<open>A site whose navigation holds nothing but an anchor, an outside link and a link
  without a target.\<close>

definition anchorsEnv :: Env where
  "anchorsEnv =
     demoEnv\<lparr>cheerioLinks := (\<lambda>html selector.
       if selector = lit ''nav ul li a''
       then [\<lparr> href = Some (lit ''#top''), linkText = lit ''Top'' \<rparr>,
             \<lparr> href = Some (lit ''https://github.com/avwo/whistle''), linkText = lit ''GitHub'' \<rparr>,
             \<lparr> href = None, linkText = lit ''Menu'' \<rparr>]
       else [])\<rparr>"

definition rulesDownEnv :: Env where
  "rulesDownEnv =
     demoEnv\<lparr>curl := (\<lambda>u. if u = lit ''https://wproxy.org/whistle/rules.html'' then None
                          else curl demoEnv u)\<rparr>"

definition offlineEnv :: Env where
  "offlineEnv = demoEnv\<lparr>curl := (\<lambda>u. None)\<rparr>"

definition readOnlyEnv :: Env where
  "readOnlyEnv = demoEnv\<lparr>canWrite := (\<lambda>path. False)\<rparr>"

definition lockedEnv :: Env where
  "lockedEnv =
     demoEnv\<lparr>canUnlink := (\<lambda>path. path \<noteq> [lit ''tmp'', lit ''whistle-docs-cache'', lit ''rules.json''])\<rparr>"

definition lockedPluginsEnv :: Env where
  "lockedPluginsEnv =
     demoEnv\<lparr>canUnlink := (\<lambda>path. path \<noteq> [lit ''tmp'', lit ''whistle-docs-cache'', lit ''plugins.json''])\<rparr>"

definition oldRules :: DocSection where
  "oldRules = rulesSection\<lparr>content := lit ''Old text''\<rparr>"

text \<open>
  A state that holds an earlier content of the rules, in the map and in the cache
  directory, and is still within its time to live at time 5.
\<close>

definition staleState :: State where
  "staleState =
     crawledState\<lparr>sections := [(lit ''rules'', oldRules)],
       files := [(cachePath demoEnv (lit ''rules''), Json oldRules)]\<rparr>"

text \<open>
  A cache directory with the two records of the sample site, a file \<^verbatim>\<open>index.json\<close>
  that is no record, and a file of notes.
\<close>

definition mixedFiles :: FileSystem where
  "mixedFiles =
     [(cachePath demoEnv (lit ''rules''), Json rulesSection),
      (CACHE_DIR demoEnv @ [lit ''notes.txt''], Garbage),
      (cachePath demoEnv (lit ''plugins''), Json pluginsSection),
      (cachePath demoEnv (lit ''index''), Garbage)]"

text \<open>
  A site whose sidebar links to \<^verbatim>\<open>../x.html\<close>, and a state whose file system holds an
  earlier record of that page: its id is \<^verbatim>\<open>../x\<close>, so its file is \<^verbatim>\<open>/tmp/x.json\<close>,
  outside the cache directory.
\<close>

definition outsideSection :: DocSection where
  "outsideSection =
     \<lparr> id' = lit ''../x'', title = lit ''X'', content = lit ''Old text'',
       url = lit ''https://wproxy.org/x.html'' \<rparr>"

definition outsideEnv :: Env where
  "outsideEnv =
     demoEnv\<lparr>cheerioLinks := (\<lambda>html selector.
         if selector = lit ''.sidebar ul li a''
         then [\<lparr> href = Some (lit ''../x.html''), linkText = lit ''X'' \<rparr>] else []),
       newURL := (\<lambda>h. Some (lit ''https://wproxy.org/x.html'')),
       curl := (\<lambda>u. if u = BASE_URL then Some (lit ''<index>'')
                    else if u = lit ''https://wproxy.org/x.html'' then Some (lit ''<plugins>'')
                    else None)\<rparr>"

definition outsideState :: State where
  "outsideState = newCache [([lit ''tmp'', lit ''x.json''], Json outsideSection)]"

text \<open>
  A section whose content is 101 times the letter U+0130 followed by \<^verbatim>\<open>abc\<close>, in a
  cache that is initialized and within its time to live at time 0.
\<close>

definition dottedSection :: DocSection where
  "dottedSection =
     \<lparr> id' = lit ''dotted'', title = lit ''Dotted'',
       content = replicate 101 304 @ lit ''abc'',
       url = lit ''https://wproxy.org/whistle/dotted.html'' \<rparr>"

definition dottedState :: State where
  "dottedState =
     \<lparr> sections = [(lit ''dotted'', dottedSection)], lastFetchTime = 0, isInitialized = True,
       files = [], fetchLog = [] \<rparr>"

text \<open>
  A content is fetched in a log when the log holds the fetch of a section page whose
  markup, as the network serves it, has that content.
\<close>

definition fetchedContent :: "Env \<Rightarrow> (Purpose \<times> jsstring) list \<Rightarrow> jsstring \<Rightarrow> bool" where
  "fetchedContent e log c =
     list_ex (\<lambda>entry. fst entry = SectionPage \<and>
        (case curl e (snd entry) of
           None \<Rightarrow> False
         | Some html \<Rightarrow> c = extractContent e html)) log"

section \<open>Facts about the string functions\<close>

lemma lit_Nil [simp]: "lit [] = []"
  by (simp add: lit_def)

lemma lit_Cons [simp]: "lit (c # cs) = of_char c # lit cs"
  by (simp add: lit_def)

lemma lit_eq_iff: "lit a = lit b \<longleftrightarrow> a = b"
  by (simp add: lit_def inj_map_eq_map [OF inj_of_char])

lemma startsWith_iff: "startsWith s q \<longleftrightarrow> (\<exists>ys. s = q @ ys)"
  by (induction s q rule: startsWith.induct) auto

lemma indexFrom_found_iff:
  "0 \<le> i \<Longrightarrow> indexFrom s q i \<noteq> - 1 \<longleftrightarrow> (\<exists>xs ys. s = xs @ q @ ys)"
proof (induction s arbitrary: i)
  case Nil
  then show ?case by (auto simp: startsWith_iff)
next
  case (Cons c cs)
  show ?case
  proof (cases "startsWith (c # cs) q")
    case True
    then obtain ys where "c # cs = q @ ys" by (auto simp: startsWith_iff)
    then have "c # cs = [] @ q @ ys" by simp
    then have "\<exists>xs ys. c # cs = xs @ q @ ys" by blast
    with True Cons.prems show ?thesis by simp
  next
    case False
    have "(\<exists>xs ys. c # cs = xs @ q @ ys) \<longleftrightarrow> (\<exists>xs ys. cs = xs @ q @ ys)"
    proof
      assume "\<exists>xs ys. c # cs = xs @ q @ ys"
      then obtain xs ys where e: "c # cs = xs @ q @ ys" by blast
      show "\<exists>xs ys. cs = xs @ q @ ys"
      proof (cases xs)
        case Nil
        with e False show ?thesis by (auto simp: startsWith_iff)
      next
        case (Cons x xs')
        with e have "cs = xs' @ q @ ys" by simp
        then show ?thesis by blast
      qed
    next
      assume "\<exists>xs ys. cs = xs @ q @ ys"
      then obtain xs ys where "cs = xs @ q @ ys" by blast
      then have "c # cs = (c # xs) @ q @ ys" by simp
      then show "\<exists>xs ys. c # cs = xs @ q @ ys" by blast
    qed
    moreover have "indexFrom cs q (i + 1) \<noteq> - 1 \<longleftrightarrow> (\<exists>xs ys. cs = xs @ q @ ys)"
      using Cons.IH [of "i + 1"] Cons.prems by simp
    ultimately show ?thesis using False by simp
  qed
qed

text \<open>\<^verbatim>\<open>includes\<close> decides whether the second string occurs in the first.\<close>

lemma includesStr_iff: "includesStr s q \<longleftrightarrow> (\<exists>xs ys. s = xs @ q @ ys)"
  by (simp add: includesStr_def indexOf_def indexFrom_found_iff)

lemma indexOf_empty: "indexOf s [] = 0"
  by (cases s) (simp_all add: indexOf_def)

lemma substring_take: "0 \<le> b \<Longrightarrow> substring s 0 b = take (nat b) s"
  by (auto simp: substring_def clampIndex_def Let_def min_def max_def)

lemma searchSections_set:
  "set (searchSections query ss) = resultOf query ` {s \<in> set ss. sectionMatches query s}"
  by (induction ss) auto

lemmas string_defs = endsWith_def indexOf_def includesStr_def substring_def clampIndex_def
  trim_def isWhiteSpace_def toLowerCase_def lowerUnit_def

lemmas index_defs = extractIndexSections_def selectors_def validHref_def stripWhistle_def
  stripHtml_def sectionIdOf_def stubOf_def defaultSection_def BASE_URL_def

lemmas path_defs = cachePath_def pathJoin_def pushSegment_def CACHE_DIR_def

lemmas listing_defs = readdirSync_def entryNames_def nameLess_def

lemmas crawl_defs = initialize_def fetchUrl_def getCachedContent_def saveCachedContent_def
  path_defs fetchSection_def extractContent_def contentSelectors_def CACHE_TTL_def
  newCache_def Let_def

lemmas demo_defs = demoEnv_def demoLinks_def rulesSection_def pluginsSection_def
  crawledState_def brokenLinkEnv_def rulesDownEnv_def offlineEnv_def readOnlyEnv_def
  lockedEnv_def lockedPluginsEnv_def oldRules_def staleState_def anchorsEnv_def mixedFiles_def
  outsideSection_def outsideEnv_def outsideState_def

section \<open>The sample site, crawled\<close>

lemma demo_index:
  "extractIndexSections demoEnv (lit ''<index>'') =
     Some [rulesSection\<lparr>content := []\<rparr>, pluginsSection\<lparr>content := []\<rparr>]"
  by (simp add: index_defs string_defs demo_defs)

lemma demo_initialize: "initialize demoEnv 0 0 (newCache []) = (Inr (), crawledState)"
  by (simp add: crawl_defs index_defs string_defs demo_defs)

section \<open>Search\<close>

lemma search_results:
  "search e now done query st = (Inr results, st') \<Longrightarrow>
   results = searchSections query (map snd (sections st'))"
  by (auto simp: search_def split: prod.splits sum.splits)

lemma demo_search_plugin:
  "search demoEnv 0 0 (lit ''plugin'') (newCache []) =
     (Inr [resultOf (lit ''plugin'') pluginsSection], crawledState)"
  by (simp add: search_def demo_initialize)
     (simp add: demo_defs sectionMatches_def string_defs)

lemma demo_search_rules:
  "search demoEnv 0 0 (lit ''rules'') (newCache []) =
     (Inr [resultOf (lit ''rules'') rulesSection], crawledState)"
  by (simp add: search_def demo_initialize)
     (simp add: demo_defs sectionMatches_def string_defs)

lemma demo_search_empty:
  "search demoEnv 0 0 [] (newCache []) =
     (Inr [resultOf [] rulesSection, resultOf [] pluginsSection], crawledState)"
  by (simp add: search_def demo_initialize)
     (simp add: demo_defs sectionMatches_def string_defs)

text \<open>
  C2. For a query that is not empty, every result of \<^verbatim>\<open>search\<close> is the result of a
  section of the map whose lower-cased title or lower-cased content has the lower-cased
  query as a substring: there are no false positives. (The proof does not use that the
  query is not empty.)
\<close>

theorem search_no_false_positives:
  assumes "query \<noteq> []"
    and "search e now done query st = (Inr results, st')"
    and "r \<in> set results"
  shows "\<exists>section \<in> set (map snd (sections st')).
           r = resultOf query section \<and>
           ((\<exists>xs ys. toLowerCase (title section) = xs @ toLowerCase query @ ys) \<or>
            (\<exists>xs ys. toLowerCase (content section) = xs @ toLowerCase query @ ys))"
proof -
  from assms(2) have "results = searchSections query (map snd (sections st'))"
    by (rule search_results)
  with assms(3) obtain sec where
    "sec \<in> set (map snd (sections st'))" "sectionMatches query sec"
    "r = resultOf query sec"
    by (auto simp: searchSections_set)
  then show ?thesis
    unfolding sectionMatches_def includesStr_iff by blast
qed

theorem search_no_false_positives_witness:
  "lit ''plugin'' \<noteq> [] \<and>
   search demoEnv 0 0 (lit ''plugin'') (newCache []) =
     (Inr [resultOf (lit ''plugin'') pluginsSection], crawledState) \<and>
   (\<exists>section \<in> set (map snd (sections crawledState)).
      resultOf (lit ''plugin'') pluginsSection = resultOf (lit ''plugin'') section \<and>
      ((\<exists>xs ys. toLowerCase (title section) = xs @ toLowerCase (lit ''plugin'') @ ys) \<or>
       (\<exists>xs ys. toLowerCase (content section) = xs @ toLowerCase (lit ''plugin'') @ ys)))"
proof -
  have q: "lit ''plugin'' \<noteq> []" by simp
  have r: "resultOf (lit ''plugin'') pluginsSection
             \<in> set [resultOf (lit ''plugin'') pluginsSection]"
    by simp
  from search_no_false_positives [OF q demo_search_plugin r] q demo_search_plugin
  show ?thesis by blast
qed

text \<open>
  C8. A section of the map whose lower-cased title contains the lower-cased query while
  its lower-cased content does not is returned by \<^verbatim>\<open>search\<close>, and its
  \<^verbatim>\<open>matchedContent\<close> is the first 200 units of the content followed by \<^verbatim>\<open>...\<close>,
  whatever the length of the content.
\<close>

theorem title_only_excerpt:
  assumes "search e now done query st = (Inr results, st')"
    and "section \<in> set (map snd (sections st'))"
    and "\<exists>xs ys. toLowerCase (title section) = xs @ toLowerCase query @ ys"
    and "\<not> (\<exists>xs ys. toLowerCase (content section) = xs @ toLowerCase query @ ys)"
  shows "resultOf query section \<in> set results \<and>
         matchedContent (resultOf query section) = take 200 (content section) @ lit ''...''"
proof -
  from assms(1) have "results = searchSections query (map snd (sections st'))"
    by (rule search_results)
  moreover from assms(3) have "sectionMatches query section"
    by (simp add: sectionMatches_def includesStr_iff)
  ultimately have "resultOf query section \<in> set results"
    using assms(2) by (simp add: searchSections_set)
  moreover from assms(4) have "indexOf (toLowerCase (content section)) (toLowerCase query) = - 1"
    using includesStr_iff [of "toLowerCase (content section)" "toLowerCase query"]
    by (simp add: includesStr_def)
  then have "excerptOf query section = take 200 (content section) @ lit ''...''"
    by (simp add: excerptOf_def substring_take del: lit_Cons)
  ultimately show ?thesis by (simp add: resultOf_def del: lit_Cons)
qed

theorem title_only_excerpt_witness:
  "search demoEnv 0 0 (lit ''rules'') (newCache []) =
     (Inr [resultOf (lit ''rules'') rulesSection], crawledState) \<and>
   content rulesSection = lit ''Map requests to operations.'' \<and>
   matchedContent (resultOf (lit ''rules'') rulesSection) = lit ''Map requests to operations....''"
proof -
  have s: "rulesSection \<in> set (map snd (sections crawledState))"
    by (simp add: crawledState_def)
  have t: "\<exists>xs ys. toLowerCase (title rulesSection) = xs @ toLowerCase (lit ''rules'') @ ys"
    unfolding includesStr_iff [symmetric] by (simp add: rulesSection_def string_defs)
  have c: "\<not> (\<exists>xs ys. toLowerCase (content rulesSection) = xs @ toLowerCase (lit ''rules'') @ ys)"
    unfolding includesStr_iff [symmetric] by (simp add: rulesSection_def string_defs)
  from title_only_excerpt [OF demo_search_rules s t c] demo_search_rules
  show ?thesis by (simp add: rulesSection_def)
qed

text \<open>
  C10. \<^verbatim>\<open>search("")\<close> returns one result for every section of the map, in the order of
  the map. The first occurrence of the empty query is at position 0, so the excerpt of
  each result is the window of the content from position 0 to position 100 (or to the
  end of a shorter content), with no \<^verbatim>\<open>...\<close> in front; \<^verbatim>\<open>...\<close> follows it when the
  content is longer than the window.
\<close>

theorem search_empty_query:
  assumes "search e now done [] st = (Inr results, st')"
  shows "results =
     map (\<lambda>section.
            \<lparr> sectionId = id' section, sectionTitle = title section,
              matchedContent =
                take 100 (content section) @
                (if 100 < length (content section) then lit ''...'' else []),
              resultUrl = url section \<rparr>)
         (map snd (sections st'))"
proof -
  have m: "sectionMatches [] sec" for sec
    by (simp add: sectionMatches_def includesStr_def toLowerCase_def indexOf_empty)
  have x: "excerptOf [] sec =
      take 100 (content sec) @ (if 100 < length (content sec) then lit ''...'' else [])"
    for sec
    by (auto simp add: excerptOf_def toLowerCase_def indexOf_empty substring_take Let_def min_def
        simp del: lit_Cons)
  have "searchSections [] ss = map (resultOf []) ss" for ss
    by (induction ss) (simp_all add: m)
  moreover from assms have "results = searchSections [] (map snd (sections st'))"
    by (rule search_results)
  ultimately show ?thesis by (simp add: resultOf_def x del: lit_Cons)
qed

theorem search_empty_query_witness:
  "search demoEnv 0 0 [] (newCache []) =
     (Inr [resultOf [] rulesSection, resultOf [] pluginsSection], crawledState) \<and>
   map matchedContent [resultOf [] rulesSection, resultOf [] pluginsSection] =
     [content rulesSection, content pluginsSection]"
proof -
  from search_empty_query [OF demo_search_empty] demo_search_empty show ?thesis
    by (simp add: demo_defs)
qed

section \<open>The loop over the stubs, case by case\<close>

lemma fetchSection_hit:
  "map_of (files st) (cachePath e (id' s)) = Some (Json r) \<Longrightarrow>
   fetchSection e s st =
     st\<lparr>sections :=
       AList.update (id' s) (s\<lparr>content := content r\<rparr>) (AList.update (id' r) r (sections st))\<rparr>"
  by (simp add: fetchSection_def getCachedContent_def)

lemma fetchSection_failed:
  "\<forall>r. map_of (files st) (cachePath e (id' s)) \<noteq> Some (Json r) \<Longrightarrow> curl e (url s) = None \<Longrightarrow>
   fetchSection e s st = st\<lparr>fetchLog := fetchLog st @ [(SectionPage, url s)]\<rparr>"
  by (auto simp add: fetchSection_def getCachedContent_def fetchUrl_def
      split: option.splits FileData.splits)

lemma fetchSection_fetched:
  "\<forall>r. map_of (files st) (cachePath e (id' s)) \<noteq> Some (Json r) \<Longrightarrow>
   curl e (url s) = Some html \<Longrightarrow>
   fetchSection e s st =
     st\<lparr>fetchLog := fetchLog st @ [(SectionPage, url s)],
        files :=
          (if canWrite e (cachePath e (id' s))
           then AList.update (cachePath e (id' s)) (Json (s\<lparr>content := extractContent e html\<rparr>))
                  (files st)
           else files st),
        sections :=
          AList.update (id' s) (s\<lparr>content := extractContent e html\<rparr>) (sections st)\<rparr>"
  by (auto simp add: fetchSection_def getCachedContent_def fetchUrl_def saveCachedContent_def
      Let_def split: option.splits FileData.splits)

lemma fetchSection_cases:
  obtains
    (hit) r where "map_of (files st) (cachePath e (id' s)) = Some (Json r)"
  | (failed) "\<forall>r. map_of (files st) (cachePath e (id' s)) \<noteq> Some (Json r)"
      "curl e (url s) = None"
  | (fetched) html where "\<forall>r. map_of (files st) (cachePath e (id' s)) \<noteq> Some (Json r)"
      "curl e (url s) = Some html"
proof (cases "\<exists>r. map_of (files st) (cachePath e (id' s)) = Some (Json r)")
  case True
  then show ?thesis using hit by blast
next
  case False
  then show ?thesis using failed fetched by (cases "curl e (url s)") auto
qed

lemma indexFetches_frame [simp]:
  "indexFetches (st\<lparr>lastFetchTime := t\<rparr>) = indexFetches st"
  "indexFetches (st\<lparr>isInitialized := b\<rparr>) = indexFetches st"
  "indexFetches (st\<lparr>sections := m\<rparr>) = indexFetches st"
  "indexFetches (st\<lparr>files := d\<rparr>) = indexFetches st"
  "indexFetches (st\<lparr>fetchLog := fetchLog st @ [(IndexPage, u)]\<rparr>) = indexFetches st + 1"
  "indexFetches (st\<lparr>fetchLog := fetchLog st @ [(SectionPage, u)]\<rparr>) = indexFetches st"
  by (simp_all add: indexFetches_def)

lemma fetchSection_frame:
  "lastFetchTime (fetchSection e s st) = lastFetchTime st \<and>
   isInitialized (fetchSection e s st) = isInitialized st \<and>
   indexFetches (fetchSection e s st) = indexFetches st"
  by (cases rule: fetchSection_cases [where st = st and s = s and e = e])
     (simp_all add: fetchSection_hit fetchSection_failed fetchSection_fetched)

lemma fetchSections_frame:
  "lastFetchTime (fetchSections e stubs st) = lastFetchTime st \<and>
   isInitialized (fetchSections e stubs st) = isInitialized st \<and>
   indexFetches (fetchSections e stubs st) = indexFetches st"
  by (induction stubs arbitrary: st) (simp_all add: fetchSection_frame)

section \<open>The time to live\<close>

lemma initialize_guard:
  "isInitialized st \<Longrightarrow> now - lastFetchTime st < CACHE_TTL \<Longrightarrow>
   initialize e now done st = (Inr (), st)"
  by (simp add: initialize_def)

lemma initialize_Inr_initialized:
  "initialize e now done st = (Inr u, st') \<Longrightarrow> isInitialized st'"
  by (auto simp: initialize_def fetchUrl_def split: if_splits option.splits)

lemma initialize_indexFetches:
  "indexFetches (snd (initialize e now done st)) \<le> indexFetches st + 1"
  by (simp add: initialize_def fetchUrl_def fetchSections_frame split: option.splits)

text \<open>
  C3. The time to live is 3,600,000 ms. A call of \<^verbatim>\<open>initialize\<close> on a state that is
  initialized, less than the time to live after its \<^verbatim>\<open>lastFetchTime\<close>, returns at once
  and leaves the whole state as it is: the map, \<^verbatim>\<open>lastFetchTime\<close>, \<^verbatim>\<open>isInitialized\<close>,
  the files and the log of fetches, so nothing is fetched. Hence, when a call
  of \<^verbatim>\<open>initialize\<close> has returned and a second call comes less than the time to live
  after the \<^verbatim>\<open>lastFetchTime\<close> it left, the second call changes nothing, and the two
  calls together have fetched the index page at most once.
\<close>

theorem initialize_within_ttl:
  "CACHE_TTL = 3600000 \<and>
   (isInitialized st \<and> now - lastFetchTime st < CACHE_TTL \<longrightarrow>
      initialize e now done st = (Inr (), st)) \<and>
   (initialize e0 now0 done0 st0 = (Inr (), st) \<and> now - lastFetchTime st < CACHE_TTL \<longrightarrow>
      initialize e now done st = (Inr (), st) \<and> indexFetches st \<le> indexFetches st0 + 1)"
proof (intro conjI impI)
  show "CACHE_TTL = 3600000" by (simp add: CACHE_TTL_def)
next
  assume "isInitialized st \<and> now - lastFetchTime st < CACHE_TTL"
  then show "initialize e now done st = (Inr (), st)" by (simp add: initialize_guard)
next
  assume a: "initialize e0 now0 done0 st0 = (Inr (), st) \<and> now - lastFetchTime st < CACHE_TTL"
  then have "isInitialized st" by (auto dest: initialize_Inr_initialized)
  with a show "initialize e now done st = (Inr (), st)" by (simp add: initialize_guard)
next
  assume a: "initialize e0 now0 done0 st0 = (Inr (), st) \<and> now - lastFetchTime st < CACHE_TTL"
  then show "indexFetches st \<le> indexFetches st0 + 1"
    using initialize_indexFetches [of e0 now0 done0 st0] by simp
qed

theorem initialize_within_ttl_witness:
  "initialize demoEnv 0 0 (newCache []) = (Inr (), crawledState) \<and>
   isInitialized crawledState \<and> 3599999 - lastFetchTime crawledState < CACHE_TTL \<and>
   initialize (demoEnv\<lparr>curl := \<lambda>u. None\<rparr>) 3599999 3600005 crawledState = (Inr (), crawledState) \<and>
   indexFetches (newCache []) = 0 \<and> indexFetches crawledState = 1"
proof -
  have t: "3599999 - lastFetchTime crawledState < CACHE_TTL"
    by (simp add: crawledState_def CACHE_TTL_def)
  have i: "isInitialized crawledState" by (simp add: crawledState_def)
  have n: "indexFetches (newCache []) = 0 \<and> indexFetches crawledState = 1"
    by (simp add: indexFetches_def newCache_def crawledState_def)
  from initialize_within_ttl [of crawledState 3599999 "demoEnv\<lparr>curl := \<lambda>u. None\<rparr>" 3600005
      demoEnv 0 0 "newCache []"] demo_initialize t i n
  show ?thesis by simp
qed

section \<open>Failures of \<^verbatim>\<open>initialize\<close>\<close>

lemma linkStubs_None_iff:
  "linkStubs e ls = None \<longleftrightarrow>
   (\<exists>l \<in> set ls. validHref (href l) \<and> newURL e (the (href l)) = None)"
  by (induction ls) (auto split: option.splits)

lemma extractIndexSections_None_iff:
  "extractIndexSections e html = None \<longleftrightarrow>
   (\<exists>links l. firstLinks (cheerioLinks e html) selectors = Some links \<and> l \<in> set links \<and>
      validHref (href l) \<and> newURL e (the (href l)) = None)"
proof (cases "firstLinks (cheerioLinks e html) selectors")
  case None
  then show ?thesis by (simp add: extractIndexSections_def)
next
  case (Some links)
  then have "extractIndexSections e html = None \<longleftrightarrow> linkStubs e links = None"
    by (simp add: extractIndexSections_def split: option.splits)
  with Some show ?thesis by (auto simp: linkStubs_None_iff)
qed

lemma initialize_crawl:
  "\<not> (isInitialized st \<and> now - lastFetchTime st < CACHE_TTL) \<Longrightarrow>
   initialize e now done st =
     (case curl e BASE_URL of
        None \<Rightarrow> (Inl InitializationError, st\<lparr>fetchLog := fetchLog st @ [(IndexPage, BASE_URL)]\<rparr>)
      | Some html \<Rightarrow>
          (case extractIndexSections e html of
             None \<Rightarrow>
               (Inl InitializationError, st\<lparr>fetchLog := fetchLog st @ [(IndexPage, BASE_URL)]\<rparr>)
           | Some stubs \<Rightarrow>
               (Inr (),
                (fetchSections e stubs (st\<lparr>fetchLog := fetchLog st @ [(IndexPage, BASE_URL)]\<rparr>))
                  \<lparr>lastFetchTime := done, isInitialized := True\<rparr>)))"
  by (auto simp: initialize_def fetchUrl_def split: option.splits)

lemma fetchSection_keeps:
  assumes "\<forall>p r. map_of (files st) p = Some (Json r) \<longrightarrow> p \<noteq> cachePath e i \<and> id' r \<noteq> i"
    and "cachePath e (id' s) = cachePath e i \<longrightarrow> curl e (url s) = None"
  shows "map_of (sections (fetchSection e s st)) i = map_of (sections st) i \<and>
     (\<forall>p r. map_of (files (fetchSection e s st)) p = Some (Json r) \<longrightarrow>
        p \<noteq> cachePath e i \<and> id' r \<noteq> i)"
proof (cases rule: fetchSection_cases [where st = st and s = s and e = e])
  case (hit r)
  with assms(1) have "i \<noteq> id' r" "i \<noteq> id' s" by auto
  with assms(1) hit show ?thesis
    by (simp add: fetchSection_hit update_conv')
next
  case failed
  with assms(1) show ?thesis by (simp add: fetchSection_failed)
next
  case (fetched html)
  with assms(2) have "cachePath e (id' s) \<noteq> cachePath e i" by auto
  moreover from this have "i \<noteq> id' s" by auto
  ultimately show ?thesis using assms(1) fetched
    by (auto simp add: fetchSection_fetched update_conv')
qed

lemma fetchSections_keeps:
  "\<forall>p r. map_of (files st) p = Some (Json r) \<longrightarrow> p \<noteq> cachePath e i \<and> id' r \<noteq> i \<Longrightarrow>
   \<forall>s \<in> set stubs. cachePath e (id' s) = cachePath e i \<longrightarrow> curl e (url s) = None \<Longrightarrow>
   map_of (sections (fetchSections e stubs st)) i = map_of (sections st) i"
proof (induction stubs arbitrary: st)
  case Nil
  then show ?case by simp
next
  case (Cons s stubs)
  from Cons.prems have "cachePath e (id' s) = cachePath e i \<longrightarrow> curl e (url s) = None" by simp
  from fetchSection_keeps [OF Cons.prems(1) this] Cons.prems(2) show ?case
    by (auto dest: Cons.IH)
qed

lemma demo_rulesDown:
  "initialize rulesDownEnv 0 7 (newCache []) =
     (Inr (),
      \<lparr> sections = [(lit ''plugins'', pluginsSection)], lastFetchTime = 7, isInitialized = True,
        files = [(cachePath rulesDownEnv (lit ''plugins''), Json pluginsSection)],
        fetchLog =
          [(IndexPage, BASE_URL), (SectionPage, url rulesSection),
           (SectionPage, url pluginsSection)] \<rparr>)"
  by (simp add: crawl_defs index_defs string_defs demo_defs)

lemma demo_rulesDown_index:
  "extractIndexSections rulesDownEnv (lit ''<index>'') =
     Some [rulesSection\<lparr>content := []\<rparr>, pluginsSection\<lparr>content := []\<rparr>]"
  by (simp add: index_defs string_defs demo_defs)

lemma demo_brokenLink:
  "initialize brokenLinkEnv 0 0 (newCache []) =
     (Inl InitializationError, (newCache [])\<lparr>fetchLog := [(IndexPage, BASE_URL)]\<rparr>)"
  by (simp add: crawl_defs index_defs string_defs demo_defs)

lemma demo_readOnly:
  "initialize readOnlyEnv 0 0 (newCache []) = (Inr (), crawledState\<lparr>files := []\<rparr>)"
  by (simp add: crawl_defs index_defs string_defs demo_defs)

lemma demo_stale_rulesDown:
  "initialize rulesDownEnv 3600000 3600000 (crawledState\<lparr>files := []\<rparr>) =
     (Inr (),
      \<lparr> sections = [(lit ''rules'', rulesSection), (lit ''plugins'', pluginsSection)],
        lastFetchTime = 3600000, isInitialized = True,
        files = [(cachePath rulesDownEnv (lit ''plugins''), Json pluginsSection)],
        fetchLog =
          [(IndexPage, BASE_URL), (SectionPage, url rulesSection),
           (SectionPage, url pluginsSection),
           (IndexPage, BASE_URL), (SectionPage, url rulesSection),
           (SectionPage, url pluginsSection)] \<rparr>)"
  by (simp add: crawl_defs index_defs string_defs demo_defs)

text \<open>
  C4, as amended. A call of \<^verbatim>\<open>initialize\<close> that goes past the test of the time to
  live throws exactly when the fetch of the index page fails or when parsing the index
  page throws, which it does when \<^verbatim>\<open>new URL\<close> rejects the href of a link that passes
  the filter. When it throws, the state is as before but for the log of fetches:
  \<^verbatim>\<open>isInitialized\<close>, \<^verbatim>\<open>lastFetchTime\<close>, the map and the files are unchanged. When it
  returns, \<^verbatim>\<open>isInitialized\<close> is true and \<^verbatim>\<open>lastFetchTime\<close> is the time of completion,
  whatever happened to the sections. A stub whose fetch fails puts no record into the
  map and takes none out of it: when the index page is fetched and parsed, the call
  returns and the map holds for an id \<open>i\<close> what it held before the call (nothing, if it
  held nothing; the entry of an earlier crawl, if it held one), provided that no file
  holds a record with the id \<open>i\<close>, the file of \<open>i\<close> holds no record, and the fetch
  fails for every stub whose file is the file of \<open>i\<close> (the stubs with the id \<open>i\<close>
  are among them).
\<close>

theorem initialize_failure_modes:
  assumes "\<not> (isInitialized st \<and> now - lastFetchTime st < CACHE_TTL)"
  shows
    "(fst (initialize e now done st) = Inl InitializationError \<longleftrightarrow>
        curl e BASE_URL = None \<or>
        (\<exists>html links l. curl e BASE_URL = Some html \<and>
           firstLinks (cheerioLinks e html) selectors = Some links \<and> l \<in> set links \<and>
           validHref (href l) \<and> newURL e (the (href l)) = None)) \<and>
     (fst (initialize e now done st) = Inl InitializationError \<longrightarrow>
        snd (initialize e now done st) = st\<lparr>fetchLog := fetchLog st @ [(IndexPage, BASE_URL)]\<rparr>) \<and>
     (fst (initialize e now done st) = Inr () \<longrightarrow>
        isInitialized (snd (initialize e now done st)) \<and>
        lastFetchTime (snd (initialize e now done st)) = done) \<and>
     (curl e BASE_URL = Some html \<and> extractIndexSections e html = Some stubs \<and>
      (\<forall>p r. map_of (files st) p = Some (Json r) \<longrightarrow> p \<noteq> cachePath e i \<and> id' r \<noteq> i) \<and>
      (\<forall>s \<in> set stubs. cachePath e (id' s) = cachePath e i \<longrightarrow> curl e (url s) = None) \<longrightarrow>
        fst (initialize e now done st) = Inr () \<and>
        map_of (sections (snd (initialize e now done st))) i = map_of (sections st) i)"
proof (intro conjI impI)
  show "fst (initialize e now done st) = Inl InitializationError \<longleftrightarrow>
        curl e BASE_URL = None \<or>
        (\<exists>html links l. curl e BASE_URL = Some html \<and>
           firstLinks (cheerioLinks e html) selectors = Some links \<and> l \<in> set links \<and>
           validHref (href l) \<and> newURL e (the (href l)) = None)"
  proof -
    have "fst (initialize e now done st) = Inl InitializationError \<longleftrightarrow>
        curl e BASE_URL = None \<or>
        (\<exists>html. curl e BASE_URL = Some html \<and> extractIndexSections e html = None)"
      by (auto simp add: initialize_crawl [OF assms] split: option.splits)
    then show ?thesis unfolding extractIndexSections_None_iff by blast
  qed
next
  assume "fst (initialize e now done st) = Inl InitializationError"
  then show "snd (initialize e now done st) = st\<lparr>fetchLog := fetchLog st @ [(IndexPage, BASE_URL)]\<rparr>"
    by (auto simp add: initialize_crawl [OF assms] split: option.splits)
next
  assume "fst (initialize e now done st) = Inr ()"
  then show "isInitialized (snd (initialize e now done st))"
    and "lastFetchTime (snd (initialize e now done st)) = done"
    by (auto simp add: initialize_crawl [OF assms] split: option.splits)
next
  assume a: "curl e BASE_URL = Some html \<and> extractIndexSections e html = Some stubs \<and>
      (\<forall>p r. map_of (files st) p = Some (Json r) \<longrightarrow> p \<noteq> cachePath e i \<and> id' r \<noteq> i) \<and>
      (\<forall>s \<in> set stubs. cachePath e (id' s) = cachePath e i \<longrightarrow> curl e (url s) = None)"
  then show "fst (initialize e now done st) = Inr ()"
    by (simp add: initialize_crawl [OF assms])
  from a have "map_of (sections
      (fetchSections e stubs (st\<lparr>fetchLog := fetchLog st @ [(IndexPage, BASE_URL)]\<rparr>))) i =
      map_of (sections (st\<lparr>fetchLog := fetchLog st @ [(IndexPage, BASE_URL)]\<rparr>)) i"
    by (intro fetchSections_keeps) auto
  with a show "map_of (sections (snd (initialize e now done st))) i = map_of (sections st) i"
    by (simp add: initialize_crawl [OF assms])
qed

theorem initialize_failure_modes_witness:
  "\<not> (isInitialized (newCache []) \<and> 0 - lastFetchTime (newCache []) < CACHE_TTL) \<and>
   curl rulesDownEnv BASE_URL = Some (lit ''<index>'') \<and>
   curl rulesDownEnv (url rulesSection) = None \<and>
   fst (initialize rulesDownEnv 0 7 (newCache [])) = Inr () \<and>
   isInitialized (snd (initialize rulesDownEnv 0 7 (newCache []))) \<and>
   lastFetchTime (snd (initialize rulesDownEnv 0 7 (newCache []))) = 7 \<and>
   map_of (sections (snd (initialize rulesDownEnv 0 7 (newCache [])))) (lit ''rules'') = None \<and>
   map_of (sections (snd (initialize rulesDownEnv 0 7 (newCache [])))) (lit ''plugins'') =
     Some pluginsSection \<and>
   curl offlineEnv BASE_URL = None \<and>
   initialize offlineEnv 0 7 (newCache []) =
     (Inl InitializationError, (newCache [])\<lparr>fetchLog := [(IndexPage, BASE_URL)]\<rparr>) \<and>
   map_of (sections (crawledState\<lparr>files := []\<rparr>)) (lit ''rules'') = Some rulesSection \<and>
   map_of (sections (snd (initialize rulesDownEnv 3600000 3600000 (crawledState\<lparr>files := []\<rparr>))))
     (lit ''rules'') = Some rulesSection"
proof -
  have g: "\<not> (isInitialized (newCache []) \<and> 0 - lastFetchTime (newCache []) < CACHE_TTL)"
    by (simp add: newCache_def)
  have c: "curl rulesDownEnv BASE_URL = Some (lit ''<index>'')"
    "curl rulesDownEnv (url rulesSection) = None" "curl offlineEnv BASE_URL = None"
    by (simp_all add: demo_defs BASE_URL_def)
  have h: "\<forall>s \<in> set [rulesSection\<lparr>content := []\<rparr>, pluginsSection\<lparr>content := []\<rparr>].
      cachePath rulesDownEnv (id' s) = cachePath rulesDownEnv (lit ''rules'') \<longrightarrow>
      curl rulesDownEnv (url s) = None"
    by (simp add: demo_defs path_defs)
  have d: "map_of (sections (newCache [])) (lit ''rules'') = None"
    "\<forall>p r. map_of (files (newCache [])) p = Some (Json r) \<longrightarrow>
       p \<noteq> cachePath rulesDownEnv (lit ''rules'') \<and> id' r \<noteq> lit ''rules''"
    by (simp_all add: newCache_def)
  have p: "map_of (sections (snd (initialize rulesDownEnv 0 7 (newCache [])))) (lit ''plugins'') =
     Some pluginsSection"
    by (simp add: demo_rulesDown)
  have l: "fetchLog (newCache []) = []" by (simp add: newCache_def)
  have g': "\<not> (isInitialized (crawledState\<lparr>files := []\<rparr>) \<and>
      3600000 - lastFetchTime (crawledState\<lparr>files := []\<rparr>) < CACHE_TTL)"
    by (simp add: crawledState_def CACHE_TTL_def)
  have d': "\<forall>p r. map_of (files (crawledState\<lparr>files := []\<rparr>)) p = Some (Json r) \<longrightarrow>
       p \<noteq> cachePath rulesDownEnv (lit ''rules'') \<and> id' r \<noteq> lit ''rules''"
    by simp
  have m: "map_of (sections (crawledState\<lparr>files := []\<rparr>)) (lit ''rules'') = Some rulesSection"
    by (simp add: crawledState_def)
  have k: "map_of (sections (snd (initialize rulesDownEnv 3600000 3600000
        (crawledState\<lparr>files := []\<rparr>)))) (lit ''rules'') =
      map_of (sections (crawledState\<lparr>files := []\<rparr>)) (lit ''rules'')"
    by (rule initialize_failure_modes [OF g', of rulesDownEnv 3600000 "lit ''<index>''"
          "[rulesSection\<lparr>content := []\<rparr>, pluginsSection\<lparr>content := []\<rparr>]" "lit ''rules''",
          THEN conjunct2, THEN conjunct2, THEN conjunct2, THEN mp, THEN conjunct2,
          OF conjI [OF c(1) conjI [OF demo_rulesDown_index conjI [OF d' h]]]])
  from initialize_failure_modes [OF g, of rulesDownEnv 7 "lit ''<index>''"
      "[rulesSection\<lparr>content := []\<rparr>, pluginsSection\<lparr>content := []\<rparr>]" "lit ''rules''"]
    initialize_failure_modes [OF g, of offlineEnv 7]
    g c h d p l demo_rulesDown_index
  have "\<not> (isInitialized (newCache []) \<and> 0 - lastFetchTime (newCache []) < CACHE_TTL) \<and>
   curl rulesDownEnv BASE_URL = Some (lit ''<index>'') \<and>
   curl rulesDownEnv (url rulesSection) = None \<and>
   fst (initialize rulesDownEnv 0 7 (newCache [])) = Inr () \<and>
   isInitialized (snd (initialize rulesDownEnv 0 7 (newCache []))) \<and>
   lastFetchTime (snd (initialize rulesDownEnv 0 7 (newCache []))) = 7 \<and>
   map_of (sections (snd (initialize rulesDownEnv 0 7 (newCache [])))) (lit ''rules'') = None \<and>
   map_of (sections (snd (initialize rulesDownEnv 0 7 (newCache [])))) (lit ''plugins'') =
     Some pluginsSection \<and>
   curl offlineEnv BASE_URL = None \<and>
   initialize offlineEnv 0 7 (newCache []) =
     (Inl InitializationError, (newCache [])\<lparr>fetchLog := [(IndexPage, BASE_URL)]\<rparr>)"
    by (simp add: prod_eq_iff)
  moreover from k m have "map_of (sections (snd (initialize rulesDownEnv 3600000 3600000
        (crawledState\<lparr>files := []\<rparr>)))) (lit ''rules'') = Some rulesSection"
    by (simp only:)
  ultimately show ?thesis using m by (simp only: simp_thms)
qed

theorem initialize_failure_modes_counterexample:
  "curl brokenLinkEnv BASE_URL = Some (lit ''<index>'') \<and>
   fst (initialize brokenLinkEnv 0 0 (newCache [])) = Inl InitializationError \<and>
   initialize readOnlyEnv 0 0 (newCache []) = (Inr (), crawledState\<lparr>files := []\<rparr>) \<and>
   curl rulesDownEnv (url rulesSection) = None \<and>
   fst (initialize rulesDownEnv 3600000 3600000 (crawledState\<lparr>files := []\<rparr>)) = Inr () \<and>
   fetchedSince (crawledState\<lparr>files := []\<rparr>)
     (snd (initialize rulesDownEnv 3600000 3600000 (crawledState\<lparr>files := []\<rparr>))) =
     [(IndexPage, BASE_URL), (SectionPage, url rulesSection), (SectionPage, url pluginsSection)] \<and>
   map_of (sections (snd (initialize rulesDownEnv 3600000 3600000 (crawledState\<lparr>files := []\<rparr>))))
     (lit ''rules'') = Some rulesSection"
  by (simp add: demo_brokenLink demo_readOnly demo_stale_rulesDown fetchedSince_def)
     (simp add: demo_defs BASE_URL_def)

section \<open>Clearing the cache directory\<close>

lemma segments_plain: "47 \<notin> set n \<Longrightarrow> segments n = [n]"
  by (induction n) simp_all

lemma pathJoin_plain: "plainName n \<Longrightarrow> pathJoin e n = CACHE_DIR e @ [n]"
  by (simp add: plainName_def pathJoin_def segments_plain pushSegment_def del: lit_Cons)

lemma set_insertName [simp]: "set (insertName n ms) = insert n (set ms)"
  by (induction ms) auto

lemma distinct_insertName [simp]: "distinct (insertName n ms) \<longleftrightarrow> n \<notin> set ms \<and> distinct ms"
  by (induction ms) auto

lemma set_foldr_insertName [simp]: "set (foldr insertName ns []) = set ns"
  by (induction ns) simp_all

lemma distinct_foldr_insertName [simp]: "distinct (foldr insertName ns []) \<longleftrightarrow> distinct ns"
  by (induction ns) simp_all

lemma set_readdirSync: "set (readdirSync e fs) = set (entryNames e fs)"
  by (simp add: readdirSync_def)

lemma distinct_readdirSync: "distinct (readdirSync e fs)"
  by (simp add: readdirSync_def)

lemma entry_listed:
  "(CACHE_DIR e @ [n], d) \<in> set fs \<Longrightarrow> n \<in> set (readdirSync e fs)"
  by (force simp add: set_readdirSync entryNames_def image_iff)

lemma unlinkFiles_all:
  "\<forall>n \<in> set names. endsWith n (lit ''.json'') \<longrightarrow> canUnlink e (pathJoin e n) \<Longrightarrow>
   unlinkFiles e names fs =
     filter (\<lambda>entry. fst entry \<notin> pathJoin e ` {n \<in> set names. endsWith n (lit ''.json'')}) fs"
proof (induction names arbitrary: fs)
  case Nil
  then show ?case by simp
next
  case (Cons name names)
  show ?case
  proof (cases "endsWith name (lit ''.json'')")
    case True
    with Cons.prems have "canUnlink e (pathJoin e name)" by simp
    with True Cons show ?thesis
      by (auto simp add: AList.delete_eq intro!: filter_cong simp del: lit_Cons)
  next
    case False
    with Cons show ?thesis
      by (auto intro!: filter_cong simp del: lit_Cons)
  qed
qed

lemma unlinkFiles_append:
  "\<forall>n \<in> set names. endsWith n (lit ''.json'') \<longrightarrow> canUnlink e (pathJoin e n) \<Longrightarrow>
   unlinkFiles e (names @ rest) fs = unlinkFiles e rest (unlinkFiles e names fs)"
  by (induction names arbitrary: fs) (simp_all del: lit_Cons)

lemma unlinkFiles_stops:
  assumes "\<forall>n \<in> set pre. endsWith n (lit ''.json'') \<longrightarrow> canUnlink e (pathJoin e n)"
    and "endsWith f (lit ''.json'')" and "\<not> canUnlink e (pathJoin e f)"
  shows "unlinkFiles e (pre @ f # post) fs =
     filter (\<lambda>entry. fst entry \<notin> pathJoin e ` {n \<in> set pre. endsWith n (lit ''.json'')}) fs"
  using assms by (simp add: unlinkFiles_append unlinkFiles_all del: lit_Cons)

lemma map_of_filter_fst:
  "P k \<Longrightarrow> map_of (filter (\<lambda>entry. P (fst entry)) fs) k = map_of fs k"
  by (induction fs) auto

lemma map_of_filter_fst_None:
  "\<not> P k \<Longrightarrow> map_of (filter (\<lambda>entry. P (fst entry)) fs) k = None"
  by (induction fs) auto

lemma clearCacheDir_all:
  assumes "canReaddir e"
    and "\<forall>n \<in> set (readdirSync e fs). endsWith n (lit ''.json'') \<longrightarrow> canUnlink e (pathJoin e n)"
  shows "clearCacheDir e fs =
     filter (\<lambda>entry. fst entry \<notin>
       pathJoin e ` {n \<in> set (readdirSync e fs). endsWith n (lit ''.json'')}) fs"
  using assms by (simp add: clearCacheDir_def unlinkFiles_all del: lit_Cons)

lemma clearCacheDir_stops:
  assumes "canReaddir e"
    and "readdirSync e fs = pre @ f # post"
    and "\<forall>n \<in> set pre. endsWith n (lit ''.json'') \<longrightarrow> canUnlink e (pathJoin e n)"
    and "endsWith f (lit ''.json'')" and "\<not> canUnlink e (pathJoin e f)"
  shows "clearCacheDir e fs =
     filter (\<lambda>entry. fst entry \<notin> pathJoin e ` {n \<in> set pre. endsWith n (lit ''.json'')}) fs"
  using assms by (simp add: clearCacheDir_def unlinkFiles_stops del: lit_Cons)

lemma clearCacheDir_keeps:
  assumes "canReaddir e"
    and "readdirSync e fs = pre @ f # post"
    and "\<forall>n \<in> set pre. endsWith n (lit ''.json'') \<longrightarrow> canUnlink e (pathJoin e n)"
    and "endsWith f (lit ''.json'')" and "\<not> canUnlink e (pathJoin e f)"
    and "\<forall>n \<in> set (readdirSync e fs). plainName n"
    and "m \<in> set (f # post)"
  shows "map_of (clearCacheDir e fs) (CACHE_DIR e @ [m]) = map_of fs (CACHE_DIR e @ [m])"
proof -
  have "distinct (pre @ f # post)" using distinct_readdirSync [of e fs] assms(2) by simp
  with assms(7) have "m \<notin> set pre" by auto
  moreover have "\<forall>n \<in> set pre. pathJoin e n = CACHE_DIR e @ [n]"
    using assms(2,6) by (simp add: pathJoin_plain)
  ultimately have "CACHE_DIR e @ [m] \<notin> pathJoin e ` {n \<in> set pre. endsWith n (lit ''.json'')}"
    by auto
  then show ?thesis
    unfolding clearCacheDir_stops [OF assms(1-5)]
    by (rule map_of_filter_fst [where P = "\<lambda>k. k \<notin> pathJoin e ` {n \<in> set pre. endsWith n (lit ''.json'')}"])
qed

lemma clearCacheDir_all_plain:
  assumes "canReaddir e"
    and "\<forall>n \<in> set (readdirSync e fs).
       plainName n \<and> (endsWith n (lit ''.json'') \<longrightarrow> canUnlink e (pathJoin e n))"
  shows "clearCacheDir e fs = filter (\<lambda>entry. \<not> jsonEntry e (fst entry)) fs"
proof -
  have u: "\<forall>n \<in> set (readdirSync e fs). endsWith n (lit ''.json'') \<longrightarrow> canUnlink e (pathJoin e n)"
    using assms(2) by blast
  have "(p \<in> pathJoin e ` {n \<in> set (readdirSync e fs). endsWith n (lit ''.json'')}) =
      jsonEntry e p" if "(p, d) \<in> set fs" for p d
  proof
    assume "p \<in> pathJoin e ` {n \<in> set (readdirSync e fs). endsWith n (lit ''.json'')}"
    then obtain n where n: "n \<in> set (readdirSync e fs)" "endsWith n (lit ''.json'')"
      "p = pathJoin e n" by blast
    from n(1) assms(2) have "plainName n" by blast
    with n(3) have "p = CACHE_DIR e @ [n]" by (simp add: pathJoin_plain)
    with n(2) show "jsonEntry e p" by (simp add: jsonEntry_def del: lit_Cons)
  next
    assume j: "jsonEntry e p"
    then have "p \<noteq> []" "butlast p = CACHE_DIR e" "endsWith (last p) (lit ''.json'')"
      by (simp_all add: jsonEntry_def del: lit_Cons)
    then have p: "p = CACHE_DIR e @ [last p]" using append_butlast_last_id [of p] by simp
    with that have "(CACHE_DIR e @ [last p], d) \<in> set fs" by simp
    then have l: "last p \<in> set (readdirSync e fs)" by (rule entry_listed)
    with assms(2) have "plainName (last p)" by blast
    then have "pathJoin e (last p) = CACHE_DIR e @ [last p]" by (rule pathJoin_plain)
    with p have "p = pathJoin e (last p)" by simp
    moreover have "last p \<in> {n \<in> set (readdirSync e fs). endsWith n (lit ''.json'')}"
      using l \<open>endsWith (last p) (lit ''.json'')\<close> by blast
    ultimately show "p \<in> pathJoin e ` {n \<in> set (readdirSync e fs). endsWith n (lit ''.json'')}"
      by (rule image_eqI)
  qed
  then have "\<And>entry. entry \<in> set fs \<Longrightarrow>
      (fst entry \<notin> pathJoin e ` {n \<in> set (readdirSync e fs). endsWith n (lit ''.json'')}) =
      (\<not> jsonEntry e (fst entry))"
    by (simp add: split_paired_all del: lit_Cons)
  then have "filter (\<lambda>entry. fst entry \<notin>
       pathJoin e ` {n \<in> set (readdirSync e fs). endsWith n (lit ''.json'')}) fs =
     filter (\<lambda>entry. \<not> jsonEntry e (fst entry)) fs"
    by (rule filter_cong [OF refl])
  then show ?thesis
    unfolding clearCacheDir_all [OF assms(1) u] .
qed

lemma demo_listing:
  "readdirSync lockedEnv mixedFiles =
     [lit ''index.json'', lit ''notes.txt'', lit ''plugins.json'', lit ''rules.json'']"
  "readdirSync lockedPluginsEnv (files crawledState) = [lit ''plugins.json'', lit ''rules.json'']"
  "readdirSync demoEnv (files crawledState) = [lit ''plugins.json'', lit ''rules.json'']"
  by (simp_all add: listing_defs path_defs demo_defs)

text \<open>
  C9, as amended. Clearing the cache directory goes through the names that the
  directory lists, in the order of the listing, which is sorted by name; it unlinks
  the path of each name that ends in \<^verbatim>\<open>.json\<close> and stops at the first \<^verbatim>\<open>unlinkSync\<close>
  that throws. The files unlinked before are gone, and nothing else has changed: the
  file that could not be unlinked and every file listed after it stay, whether they
  could be unlinked or not. The whole directory stays when it cannot be listed. The
  failure is logged and \<^verbatim>\<open>refreshCache\<close> goes on to call \<^verbatim>\<open>initialize\<close> on the files as
  the clearing left them. When the directory can be listed and no \<^verbatim>\<open>unlinkSync\<close>
  throws, the path of every listed name that ends in \<^verbatim>\<open>.json\<close> is unlinked and nothing
  else; the names of a directory being plain names, these are the records of the
  cache. A file outside the cache directory stays in every case.
\<close>

theorem clear_stops_at_first_failure:
  "(canReaddir e \<and>
    (\<forall>n \<in> set (readdirSync e fs). endsWith n (lit ''.json'') \<longrightarrow> canUnlink e (pathJoin e n)) \<longrightarrow>
      clearCacheDir e fs =
        filter (\<lambda>entry. fst entry \<notin>
          set (map (pathJoin e) (filter (\<lambda>n. endsWith n (lit ''.json'')) (readdirSync e fs)))) fs \<and>
      ((\<forall>n \<in> set (readdirSync e fs). plainName n) \<longrightarrow>
         clearCacheDir e fs = filter (\<lambda>entry. \<not> jsonEntry e (fst entry)) fs)) \<and>
   (canReaddir e \<and> readdirSync e fs = pre @ f # post \<and>
    (\<forall>n \<in> set pre. endsWith n (lit ''.json'') \<longrightarrow> canUnlink e (pathJoin e n)) \<and>
    endsWith f (lit ''.json'') \<and> \<not> canUnlink e (pathJoin e f) \<longrightarrow>
      clearCacheDir e fs =
        filter (\<lambda>entry. fst entry \<notin>
          set (map (pathJoin e) (filter (\<lambda>n. endsWith n (lit ''.json'')) pre))) fs \<and>
      ((\<forall>n \<in> set (readdirSync e fs). plainName n) \<longrightarrow>
         (\<forall>m \<in> set (f # post).
            map_of (clearCacheDir e fs) (CACHE_DIR e @ [m]) = map_of fs (CACHE_DIR e @ [m])))) \<and>
   (\<not> canReaddir e \<longrightarrow> clearCacheDir e fs = fs) \<and>
   refreshCache e now done st =
     initialize e now done
       (st\<lparr>isInitialized := False, sections := [], files := clearCacheDir e (files st)\<rparr>)"
proof (intro conjI impI ballI)
  assume a: "canReaddir e \<and>
    (\<forall>n \<in> set (readdirSync e fs). endsWith n (lit ''.json'') \<longrightarrow> canUnlink e (pathJoin e n))"
  then show "clearCacheDir e fs =
        filter (\<lambda>entry. fst entry \<notin>
          set (map (pathJoin e) (filter (\<lambda>n. endsWith n (lit ''.json'')) (readdirSync e fs)))) fs"
    using clearCacheDir_all [of e fs] by (simp del: lit_Cons)
  assume "\<forall>n \<in> set (readdirSync e fs). plainName n"
  with a show "clearCacheDir e fs = filter (\<lambda>entry. \<not> jsonEntry e (fst entry)) fs"
    by (intro clearCacheDir_all_plain) auto
next
  assume a: "canReaddir e \<and> readdirSync e fs = pre @ f # post \<and>
    (\<forall>n \<in> set pre. endsWith n (lit ''.json'') \<longrightarrow> canUnlink e (pathJoin e n)) \<and>
    endsWith f (lit ''.json'') \<and> \<not> canUnlink e (pathJoin e f)"
  then show "clearCacheDir e fs =
        filter (\<lambda>entry. fst entry \<notin>
          set (map (pathJoin e) (filter (\<lambda>n. endsWith n (lit ''.json'')) pre))) fs"
    using clearCacheDir_stops [of e fs pre f post] by (simp del: lit_Cons)
  fix m
  assume "\<forall>n \<in> set (readdirSync e fs). plainName n" and "m \<in> set (f # post)"
  with a show "map_of (clearCacheDir e fs) (CACHE_DIR e @ [m]) = map_of fs (CACHE_DIR e @ [m])"
    by (intro clearCacheDir_keeps [where pre = pre and f = f and post = post]) auto
next
  assume "\<not> canReaddir e"
  then show "clearCacheDir e fs = fs" by (simp add: clearCacheDir_def)
next
  show "refreshCache e now done st =
     initialize e now done
       (st\<lparr>isInitialized := False, sections := [], files := clearCacheDir e (files st)\<rparr>)"
    by (simp add: refreshCache_def)
qed

theorem clear_stops_at_first_failure_witness:
  "canReaddir lockedEnv \<and>
   readdirSync lockedEnv mixedFiles =
     [lit ''index.json'', lit ''notes.txt'', lit ''plugins.json''] @ lit ''rules.json'' # [] \<and>
   canUnlink lockedEnv (pathJoin lockedEnv (lit ''index.json'')) \<and>
   canUnlink lockedEnv (pathJoin lockedEnv (lit ''plugins.json'')) \<and>
   \<not> canUnlink lockedEnv (pathJoin lockedEnv (lit ''rules.json'')) \<and>
   clearCacheDir lockedEnv mixedFiles =
     [(cachePath demoEnv (lit ''rules''), Json rulesSection),
      (CACHE_DIR demoEnv @ [lit ''notes.txt''], Garbage)] \<and>
   map_of (clearCacheDir lockedEnv mixedFiles) (CACHE_DIR lockedEnv @ [lit ''rules.json'']) =
     Some (Json rulesSection) \<and>
   clearCacheDir demoEnv (files crawledState) = [] \<and>
   clearCacheDir (demoEnv\<lparr>canReaddir := False\<rparr>) (files crawledState) = files crawledState"
proof -
  have h: "canReaddir lockedEnv"
    "canUnlink lockedEnv (pathJoin lockedEnv (lit ''index.json''))"
    "canUnlink lockedEnv (pathJoin lockedEnv (lit ''plugins.json''))"
    "\<not> canUnlink lockedEnv (pathJoin lockedEnv (lit ''rules.json''))"
    "canReaddir demoEnv" "\<not> canReaddir (demoEnv\<lparr>canReaddir := False\<rparr>)"
    "\<forall>n \<in> set (readdirSync demoEnv (files crawledState)).
       endsWith n (lit ''.json'') \<longrightarrow> canUnlink demoEnv (pathJoin demoEnv n)"
    by (simp_all add: demo_defs path_defs)
  have j: "endsWith (lit ''rules.json'') (lit ''.json'')"
    "endsWith (lit ''plugins.json'') (lit ''.json'')"
    "endsWith (lit ''index.json'') (lit ''.json'')"
    "\<not> endsWith (lit ''notes.txt'') (lit ''.json'')"
    by (simp_all add: endsWith_def)
  have p: "plainName (lit ''index.json'')" "plainName (lit ''notes.txt'')"
    "plainName (lit ''plugins.json'')" "plainName (lit ''rules.json'')"
    by (simp_all add: plainName_def)
  have m: "map_of mixedFiles (CACHE_DIR lockedEnv @ [lit ''rules.json'']) = Some (Json rulesSection)"
    by (simp add: demo_defs path_defs)
  have l: "readdirSync lockedEnv mixedFiles =
     [lit ''index.json'', lit ''notes.txt'', lit ''plugins.json''] @ lit ''rules.json'' # []"
    by (simp add: demo_listing)
  note a = clear_stops_at_first_failure [where e = lockedEnv and fs = mixedFiles
      and pre = "[lit ''index.json'', lit ''notes.txt'', lit ''plugins.json'']"
      and f = "lit ''rules.json''" and post = "[]", THEN conjunct2, THEN conjunct1, THEN mp]
  have a1: "clearCacheDir lockedEnv mixedFiles =
     filter (\<lambda>entry. fst entry \<notin>
       set (map (pathJoin lockedEnv) (filter (\<lambda>n. endsWith n (lit ''.json''))
         [lit ''index.json'', lit ''notes.txt'', lit ''plugins.json'']))) mixedFiles"
    by (rule a [THEN conjunct1]) (simp add: h j l del: lit_Cons)
  have a2: "map_of (clearCacheDir lockedEnv mixedFiles) (CACHE_DIR lockedEnv @ [lit ''rules.json'']) =
     map_of mixedFiles (CACHE_DIR lockedEnv @ [lit ''rules.json''])"
    by (rule a [THEN conjunct2, THEN mp, THEN bspec]) (simp_all add: h j l p del: lit_Cons)
  have b: "clearCacheDir demoEnv (files crawledState) =
     filter (\<lambda>entry. fst entry \<notin>
       set (map (pathJoin demoEnv) (filter (\<lambda>n. endsWith n (lit ''.json''))
         (readdirSync demoEnv (files crawledState))))) (files crawledState)"
    by (rule clear_stops_at_first_failure [where e = demoEnv and fs = "files crawledState"
          and pre = "[]" and post = "[]", THEN conjunct1, THEN mp, THEN conjunct1])
       (simp add: h)
  have c: "clearCacheDir (demoEnv\<lparr>canReaddir := False\<rparr>) (files crawledState) = files crawledState"
    by (rule clear_stops_at_first_failure [where e = "demoEnv\<lparr>canReaddir := False\<rparr>"
          and pre = "[]" and post = "[]", THEN conjunct2, THEN conjunct2, THEN conjunct1, THEN mp])
       simp
  have a1': "clearCacheDir lockedEnv mixedFiles =
     [(cachePath demoEnv (lit ''rules''), Json rulesSection),
      (CACHE_DIR demoEnv @ [lit ''notes.txt''], Garbage)]"
    unfolding a1 by (simp add: demo_defs path_defs endsWith_def)
  have b': "clearCacheDir demoEnv (files crawledState) = []"
    unfolding b demo_listing by (simp add: demo_defs path_defs endsWith_def)
  from h l a1' a2 m b' c show ?thesis by simp
qed

theorem clear_stops_at_first_failure_counterexample:
  "readdirSync lockedPluginsEnv (files crawledState) = [lit ''plugins.json'', lit ''rules.json''] \<and>
   \<not> canUnlink lockedPluginsEnv (pathJoin lockedPluginsEnv (lit ''plugins.json'')) \<and>
   canUnlink lockedPluginsEnv (pathJoin lockedPluginsEnv (lit ''rules.json'')) \<and>
   clearCacheDir lockedPluginsEnv (files crawledState) = files crawledState \<and>
   map_of (clearCacheDir lockedPluginsEnv (files crawledState))
     (pathJoin lockedPluginsEnv (lit ''rules.json'')) = Some (Json rulesSection)"
  by (simp add: clearCacheDir_def demo_listing)
     (simp add: demo_defs path_defs endsWith_def)

section \<open>Refreshing the cache\<close>

lemma set_update_subset: "set (AList.update k v al) \<subseteq> insert (k, v) (set al)"
  by (induction al) auto

lemma fetchedContent_mono:
  "fetchedContent e (drop n log) c \<Longrightarrow> n \<le> length log \<Longrightarrow>
   fetchedContent e (drop n (log @ rest)) c"
  by (simp add: fetchedContent_def)

lemma fetchedContent_last:
  "curl e u = Some html \<Longrightarrow> n \<le> length log \<Longrightarrow>
   fetchedContent e (drop n (log @ [(SectionPage, u)])) (extractContent e html)"
  by (simp add: fetchedContent_def)

lemma fetchSection_log:
  "\<exists>rest. fetchLog (fetchSection e s st) = fetchLog st @ rest"
  by (cases rule: fetchSection_cases [where st = st and s = s and e = e])
     (simp_all add: fetchSection_hit fetchSection_failed fetchSection_fetched)

lemma fetchSections_log:
  "\<exists>rest. fetchLog (fetchSections e stubs st) = fetchLog st @ rest"
proof (induction stubs arbitrary: st)
  case Nil
  then show ?case by simp
next
  case (Cons s stubs)
  obtain m1 where "fetchLog (fetchSection e s st) = fetchLog st @ m1"
    using fetchSection_log by blast
  moreover obtain m2 where
    "fetchLog (fetchSections e stubs (fetchSection e s st)) = fetchLog (fetchSection e s st) @ m2"
    using Cons.IH by blast
  ultimately show ?case by simp
qed

lemma fetchSection_fresh:
  assumes n: "n \<le> length (fetchLog st)"
    and m: "\<forall>entry \<in> set (sections st).
        fetchedContent e (drop n (fetchLog st)) (content (snd entry))"
    and d: "\<forall>f r. map_of (files st) f = Some (Json r) \<longrightarrow>
        fetchedContent e (drop n (fetchLog st)) (content r)"
  shows "n \<le> length (fetchLog (fetchSection e s st)) \<and>
     (\<forall>entry \<in> set (sections (fetchSection e s st)).
        fetchedContent e (drop n (fetchLog (fetchSection e s st))) (content (snd entry))) \<and>
     (\<forall>f r. map_of (files (fetchSection e s st)) f = Some (Json r) \<longrightarrow>
        fetchedContent e (drop n (fetchLog (fetchSection e s st))) (content r))"
proof (cases rule: fetchSection_cases [where st = st and s = s and e = e])
  case (hit r)
  with d have c: "fetchedContent e (drop n (fetchLog st)) (content r)"
    by blast
  have "set (AList.update (id' s) (s\<lparr>content := content r\<rparr>) (AList.update (id' r) r (sections st)))
      \<subseteq> {(id' s, s\<lparr>content := content r\<rparr>), (id' r, r)} \<union> set (sections st)"
    using set_update_subset [of "id' s" "s\<lparr>content := content r\<rparr>" "AList.update (id' r) r (sections st)"]
      set_update_subset [of "id' r" r "sections st"] by auto
  with c m have "\<forall>entry \<in> set (AList.update (id' s) (s\<lparr>content := content r\<rparr>)
        (AList.update (id' r) r (sections st))).
      fetchedContent e (drop n (fetchLog st)) (content (snd entry))"
    by auto
  with n d hit show ?thesis by (simp add: fetchSection_hit del: lit_Cons)
next
  case failed
  with n m d show ?thesis
    by (simp add: fetchSection_failed fetchedContent_def del: lit_Cons)
next
  case (fetched html)
  let ?s = "s\<lparr>content := extractContent e html\<rparr>"
  define log where "log = drop n (fetchLog st @ [(SectionPage, url s)])"
  have new: "fetchedContent e log (content ?s)"
    using fetchedContent_last [OF fetched(2) n] by (simp add: log_def)
  have old: "fetchedContent e (drop n (fetchLog st)) c \<Longrightarrow> fetchedContent e log c" for c
    using n by (simp add: fetchedContent_def log_def)
  have sec: "\<forall>entry \<in> set (AList.update (id' s) ?s (sections st)).
      fetchedContent e log (content (snd entry))"
  proof
    fix entry
    assume "entry \<in> set (AList.update (id' s) ?s (sections st))"
    then have "entry = (id' s, ?s) \<or> entry \<in> set (sections st)"
      using set_update_subset [of "id' s" ?s "sections st"] by auto
    then show "fetchedContent e log (content (snd entry))"
      using new old m by auto
  qed
  have dir: "\<forall>f r. map_of (if canWrite e (cachePath e (id' s))
           then AList.update (cachePath e (id' s)) (Json ?s) (files st)
           else files st) f = Some (Json r) \<longrightarrow>
        fetchedContent e log (content r)"
    using new old d by (auto simp add: update_conv' simp del: lit_Cons)
  from n sec dir fetched show ?thesis
    unfolding log_def by (simp add: fetchSection_fetched del: lit_Cons)
qed

lemma fetchSections_fresh:
  "n \<le> length (fetchLog st) \<Longrightarrow>
   \<forall>entry \<in> set (sections st). fetchedContent e (drop n (fetchLog st)) (content (snd entry)) \<Longrightarrow>
   \<forall>f r. map_of (files st) f = Some (Json r) \<longrightarrow>
        fetchedContent e (drop n (fetchLog st)) (content r) \<Longrightarrow>
   (\<forall>entry \<in> set (sections (fetchSections e stubs st)).
        fetchedContent e (drop n (fetchLog (fetchSections e stubs st))) (content (snd entry))) \<and>
   (\<forall>f r. map_of (files (fetchSections e stubs st)) f = Some (Json r) \<longrightarrow>
        fetchedContent e (drop n (fetchLog (fetchSections e stubs st))) (content r))"
proof (induction stubs arbitrary: st)
  case Nil
  then show ?case by simp
next
  case (Cons s stubs)
  from fetchSection_fresh [OF Cons.prems, of s] show ?case
    by (simp del: lit_Cons) (rule Cons.IH, simp_all del: lit_Cons)
qed

lemma map_of_filter_key:
  "map_of (filter (\<lambda>entry. P (fst entry)) fs) p = Some v \<Longrightarrow> P p \<and> map_of fs p = Some v"
  by (induction fs) (auto split: if_splits)

lemma getCachedContent_Some:
  "fst (getCachedContent e i st) = Some r \<Longrightarrow> map_of (files st) (cachePath e i) = Some (Json r)"
  by (auto simp: getCachedContent_def split: option.splits FileData.splits)

lemma refreshCache_crawl:
  "refreshCache e now done st =
     (case curl e BASE_URL of
        None \<Rightarrow>
          (Inl InitializationError,
           st\<lparr>isInitialized := False, sections := [], files := clearCacheDir e (files st),
              fetchLog := fetchLog st @ [(IndexPage, BASE_URL)]\<rparr>)
      | Some html \<Rightarrow>
          (case extractIndexSections e html of
             None \<Rightarrow>
               (Inl InitializationError,
                st\<lparr>isInitialized := False, sections := [],
                   files := clearCacheDir e (files st),
                   fetchLog := fetchLog st @ [(IndexPage, BASE_URL)]\<rparr>)
           | Some stubs \<Rightarrow>
               (Inr (),
                (fetchSections e stubs
                   (st\<lparr>isInitialized := False, sections := [],
                      files := clearCacheDir e (files st),
                      fetchLog := fetchLog st @ [(IndexPage, BASE_URL)]\<rparr>))
                  \<lparr>lastFetchTime := done, isInitialized := True\<rparr>)))"
  by (simp add: refreshCache_def initialize_crawl split: option.splits)

lemma demo_refresh:
  "refreshCache demoEnv 5 9
     staleState =
   (Inr (),
    crawledState\<lparr>lastFetchTime := 9,
      fetchLog := fetchLog crawledState @ fetchLog crawledState\<rparr>)"
  by (simp add: refreshCache_def clearCacheDir_def listing_defs crawl_defs index_defs string_defs
      demo_defs)

lemma demo_refresh_locked:
  "refreshCache lockedEnv 5 9
     staleState =
   (Inr (),
    \<lparr> sections = [(lit ''rules'', oldRules), (lit ''plugins'', pluginsSection)],
      lastFetchTime = 9, isInitialized = True,
      files = [(cachePath demoEnv (lit ''rules''), Json oldRules),
        (cachePath demoEnv (lit ''plugins''), Json pluginsSection)],
      fetchLog = fetchLog crawledState @ [(IndexPage, BASE_URL), (SectionPage, url pluginsSection)] \<rparr>)"
  by (simp add: refreshCache_def clearCacheDir_def listing_defs crawl_defs index_defs string_defs
      demo_defs)

lemma demo_refresh_outside:
  "refreshCache outsideEnv 5 9 outsideState =
   (Inr (),
    \<lparr> sections = [(lit ''../x'', outsideSection)],
      lastFetchTime = 9, isInitialized = True,
      files = [([lit ''tmp'', lit ''x.json''], Json outsideSection)],
      fetchLog = [(IndexPage, BASE_URL)] \<rparr>)"
  by (simp add: refreshCache_def clearCacheDir_def listing_defs crawl_defs index_defs string_defs
      demo_defs outsideEnv_def outsideState_def outsideSection_def)

lemma demo_refresh_brokenLink:
  "refreshCache brokenLinkEnv 5 9 crawledState =
   (Inl InitializationError,
    crawledState\<lparr>isInitialized := False, sections := [], files := [],
      fetchLog := fetchLog crawledState @ [(IndexPage, BASE_URL)]\<rparr>)"
  by (simp add: refreshCache_def clearCacheDir_def listing_defs crawl_defs index_defs string_defs
      demo_defs)

text \<open>
  C5, as amended. \<^verbatim>\<open>refreshCache\<close> fetches the index page whatever the state and the
  time are; when it throws, the map is empty and \<^verbatim>\<open>isInitialized\<close> is false. When the
  index page can be fetched and parsing it does not throw, \<^verbatim>\<open>refreshCache\<close> returns
  with \<^verbatim>\<open>isInitialized\<close> true and \<^verbatim>\<open>lastFetchTime\<close> the time of completion. Nothing
  that was cached before is reused when the clearing reaches every record: when the
  cache directory can be listed, the names it lists are plain names, each listed name
  that ends in \<^verbatim>\<open>.json\<close> can be unlinked, and every record of a section in the file
  system is a \<^verbatim>\<open>.json\<close> file of the cache directory itself (not a file that an id with
  \<^verbatim>\<open>..\<close> or a slash put elsewhere). Then the content of every section of the resulting
  map, and of every record that \<^verbatim>\<open>getCachedContent\<close> finds afterwards, was extracted
  from a section page fetched during this refresh.
\<close>

theorem refreshCache_recrawls:
  "(IndexPage, BASE_URL) \<in> set (fetchedSince st (snd (refreshCache e now done st))) \<and>
   (fst (refreshCache e now done st) = Inl InitializationError \<longrightarrow>
      \<not> isInitialized (snd (refreshCache e now done st)) \<and>
      sections (snd (refreshCache e now done st)) = []) \<and>
   (curl e BASE_URL = Some html \<and> extractIndexSections e html = Some stubs \<longrightarrow>
      fst (refreshCache e now done st) = Inr () \<and>
      isInitialized (snd (refreshCache e now done st)) \<and>
      lastFetchTime (snd (refreshCache e now done st)) = done) \<and>
   (canReaddir e \<and>
    (\<forall>n \<in> set (readdirSync e (files st)).
       plainName n \<and> (endsWith n (lit ''.json'') \<longrightarrow> canUnlink e (pathJoin e n))) \<and>
    (\<forall>p r. map_of (files st) p = Some (Json r) \<longrightarrow> jsonEntry e p) \<longrightarrow>
      (\<forall>entry \<in> set (sections (snd (refreshCache e now done st))).
         fetchedContent e (fetchedSince st (snd (refreshCache e now done st)))
           (content (snd entry))) \<and>
      (\<forall>i r. fst (getCachedContent e i (snd (refreshCache e now done st))) = Some r \<longrightarrow>
         fetchedContent e (fetchedSince st (snd (refreshCache e now done st))) (content r)))"
proof -
  let ?st0 = "st\<lparr>isInitialized := False, sections := [],
      files := clearCacheDir e (files st),
      fetchLog := fetchLog st @ [(IndexPage, BASE_URL)]\<rparr>"
  let ?st' = "snd (refreshCache e now done st)"
  have log: "\<exists>rest. fetchLog ?st' = fetchLog st @ (IndexPage, BASE_URL) # rest"
  proof (cases "curl e BASE_URL")
    case None
    then show ?thesis by (simp add: refreshCache_crawl)
  next
    case (Some html')
    show ?thesis
    proof (cases "extractIndexSections e html'")
      case None
      with Some show ?thesis by (simp add: refreshCache_crawl)
    next
      case (Some stubs')
      obtain rest where "fetchLog (fetchSections e stubs' ?st0) = fetchLog ?st0 @ rest"
        using fetchSections_log by blast
      with Some \<open>curl e BASE_URL = Some html'\<close> show ?thesis
        by (simp add: refreshCache_crawl)
    qed
  qed
  then have 1: "(IndexPage, BASE_URL) \<in> set (fetchedSince st ?st')"
    by (auto simp: fetchedSince_def)
  have 2: "fst (refreshCache e now done st) = Inl InitializationError \<longrightarrow>
      \<not> isInitialized ?st' \<and> sections ?st' = []"
    by (auto simp: refreshCache_crawl split: option.splits)
  have 3: "curl e BASE_URL = Some html \<and> extractIndexSections e html = Some stubs \<longrightarrow>
      fst (refreshCache e now done st) = Inr () \<and> isInitialized ?st' \<and> lastFetchTime ?st' = done"
    by (auto simp: refreshCache_crawl)
  have 4: "(\<forall>entry \<in> set (sections ?st').
         fetchedContent e (fetchedSince st ?st') (content (snd entry))) \<and>
      (\<forall>i r. fst (getCachedContent e i ?st') = Some r \<longrightarrow>
         fetchedContent e (fetchedSince st ?st') (content r))"
    if c: "canReaddir e"
      "\<forall>n \<in> set (readdirSync e (files st)).
         plainName n \<and> (endsWith n (lit ''.json'') \<longrightarrow> canUnlink e (pathJoin e n))"
      and j: "\<forall>p r. map_of (files st) p = Some (Json r) \<longrightarrow> jsonEntry e p"
  proof -
    have cleared: "files ?st0 = filter (\<lambda>entry. \<not> jsonEntry e (fst entry)) (files st)"
      using clearCacheDir_all_plain [OF c] by simp
    have d0: "\<forall>p r. map_of (files ?st0) p = Some (Json r) \<longrightarrow>
        fetchedContent e (drop (length (fetchLog st)) (fetchLog ?st0)) (content r)"
      unfolding cleared
      using map_of_filter_key [of "\<lambda>p. \<not> jsonEntry e p" "files st"] j by blast
    have inv: "(\<forall>entry \<in> set (sections ?st').
          fetchedContent e (drop (length (fetchLog st)) (fetchLog ?st')) (content (snd entry))) \<and>
        (\<forall>p r. map_of (files ?st') p = Some (Json r) \<longrightarrow>
          fetchedContent e (drop (length (fetchLog st)) (fetchLog ?st')) (content r))"
    proof (cases "curl e BASE_URL")
      case None
      with d0 show ?thesis by (simp add: refreshCache_crawl del: lit_Cons)
    next
      case (Some html')
      show ?thesis
      proof (cases "extractIndexSections e html'")
        case None
        with Some d0 show ?thesis by (simp add: refreshCache_crawl del: lit_Cons)
      next
        case (Some stubs')
        have "length (fetchLog st) \<le> length (fetchLog ?st0)" by simp
        moreover have "\<forall>entry \<in> set (sections ?st0).
            fetchedContent e (drop (length (fetchLog st)) (fetchLog ?st0)) (content (snd entry))"
          by simp
        ultimately have "(\<forall>entry \<in> set (sections (fetchSections e stubs' ?st0)).
            fetchedContent e (drop (length (fetchLog st)) (fetchLog (fetchSections e stubs' ?st0)))
              (content (snd entry))) \<and>
          (\<forall>p r. map_of (files (fetchSections e stubs' ?st0)) p = Some (Json r) \<longrightarrow>
            fetchedContent e (drop (length (fetchLog st)) (fetchLog (fetchSections e stubs' ?st0)))
              (content r))"
          using d0 by (rule fetchSections_fresh)
        with Some \<open>curl e BASE_URL = Some html'\<close> show ?thesis
          by (simp add: refreshCache_crawl del: lit_Cons)
      qed
    qed
    then show ?thesis
      unfolding fetchedSince_def
      using getCachedContent_Some by blast
  qed
  from 1 2 3 4 show ?thesis by blast
qed

theorem refreshCache_recrawls_witness:
  "canReaddir demoEnv \<and>
   readdirSync demoEnv (files staleState) = [lit ''rules.json''] \<and>
   canUnlink demoEnv (pathJoin demoEnv (lit ''rules.json'')) \<and>
   jsonEntry demoEnv (cachePath demoEnv (lit ''rules'')) \<and>
   curl demoEnv BASE_URL = Some (lit ''<index>'') \<and>
   fst (refreshCache demoEnv 5 9 staleState) = Inr () \<and>
   isInitialized (snd (refreshCache demoEnv 5 9 staleState)) \<and>
   lastFetchTime (snd (refreshCache demoEnv 5 9 staleState)) = 9 \<and>
   sections (snd (refreshCache demoEnv 5 9 staleState)) =
     [(lit ''rules'', rulesSection), (lit ''plugins'', pluginsSection)] \<and>
   fetchedContent demoEnv
     [(IndexPage, BASE_URL), (SectionPage, url rulesSection), (SectionPage, url pluginsSection)]
     (content rulesSection)"
proof -
  have l: "readdirSync demoEnv (files staleState) = [lit ''rules.json'']"
    by (simp add: listing_defs path_defs demo_defs)
  have h: "canReaddir demoEnv" "canUnlink demoEnv (pathJoin demoEnv (lit ''rules.json''))"
    "curl demoEnv BASE_URL = Some (lit ''<index>'')"
    "jsonEntry demoEnv (cachePath demoEnv (lit ''rules''))"
    "plainName (lit ''rules.json'')"
    by (simp_all add: demo_defs BASE_URL_def jsonEntry_def path_defs endsWith_def plainName_def)
  have f: "files staleState = [(cachePath demoEnv (lit ''rules''), Json oldRules)]"
    by (simp add: demo_defs del: lit_Cons)
  have j: "\<forall>p r. map_of (files staleState) p = Some (Json r) \<longrightarrow> jsonEntry demoEnv p"
    unfolding f using h(4) by (simp del: lit_Cons)
  have n: "\<forall>n \<in> set (readdirSync demoEnv (files staleState)).
       plainName n \<and> (endsWith n (lit ''.json'') \<longrightarrow> canUnlink demoEnv (pathJoin demoEnv n))"
    unfolding l using h(2,5) by (simp del: lit_Cons)
  have s: "sections (snd (refreshCache demoEnv 5 9 staleState)) =
     [(lit ''rules'', rulesSection), (lit ''plugins'', pluginsSection)]"
    "fetchedSince staleState (snd (refreshCache demoEnv 5 9 staleState)) =
     [(IndexPage, BASE_URL), (SectionPage, url rulesSection), (SectionPage, url pluginsSection)]"
    by (simp_all add: demo_refresh fetchedSince_def) (simp_all add: demo_defs)
  note t = refreshCache_recrawls [of staleState demoEnv 5 9 "lit ''<index>''"
      "[rulesSection\<lparr>content := []\<rparr>, pluginsSection\<lparr>content := []\<rparr>]"]
  have a: "fst (refreshCache demoEnv 5 9 staleState) = Inr () \<and>
      isInitialized (snd (refreshCache demoEnv 5 9 staleState)) \<and>
      lastFetchTime (snd (refreshCache demoEnv 5 9 staleState)) = 9"
    by (rule t [THEN conjunct2, THEN conjunct2, THEN conjunct1, THEN mp])
       (simp add: h(3) demo_index del: lit_Cons)
  have "\<forall>entry \<in> set (sections (snd (refreshCache demoEnv 5 9 staleState))).
         fetchedContent demoEnv (fetchedSince staleState (snd (refreshCache demoEnv 5 9 staleState)))
           (content (snd entry))"
    by (rule t [THEN conjunct2, THEN conjunct2, THEN conjunct2, THEN mp, THEN conjunct1])
       (intro conjI h(1) n j)
  then have b: "fetchedContent demoEnv
     [(IndexPage, BASE_URL), (SectionPage, url rulesSection), (SectionPage, url pluginsSection)]
     (content rulesSection)"
    unfolding s by simp
  from l h a s(1) b show ?thesis by (simp del: lit_Cons)
qed

theorem refreshCache_recrawls_counterexample:
  "canUnlink lockedEnv (pathJoin lockedEnv (lit ''rules.json'')) = False \<and>
   curl lockedEnv (url rulesSection) = Some (lit ''<rules>'') \<and>
   extractContent lockedEnv (lit ''<rules>'') = lit ''Map requests to operations.'' \<and>
   map (\<lambda>entry. content (snd entry))
     (sections (snd (refreshCache lockedEnv 5 9 staleState))) =
     [lit ''Old text'', content pluginsSection] \<and>
   curl brokenLinkEnv BASE_URL = Some (lit ''<index>'') \<and>
   fst (refreshCache brokenLinkEnv 5 9 crawledState) = Inl InitializationError \<and>
   isInitialized (snd (refreshCache brokenLinkEnv 5 9 crawledState)) = False \<and>
   canReaddir outsideEnv \<and> readdirSync outsideEnv (files outsideState) = [] \<and>
   fetchedSince outsideState (snd (refreshCache outsideEnv 5 9 outsideState)) =
     [(IndexPage, BASE_URL)] \<and>
   map (\<lambda>entry. content (snd entry))
     (sections (snd (refreshCache outsideEnv 5 9 outsideState))) = [lit ''Old text'']"
  by (simp add: demo_refresh_locked demo_refresh_brokenLink demo_refresh_outside fetchedSince_def)
     (simp add: demo_defs BASE_URL_def extractContent_def contentSelectors_def string_defs
        path_defs listing_defs outsideEnv_def outsideState_def outsideSection_def newCache_def)
section \<open>The stubs of the index page\<close>

lemma firstLinks_None_iff:
  "firstLinks doc sels = None \<longleftrightarrow> (\<forall>selector \<in> set sels. doc selector = [])"
  by (induction sels) auto


lemma linkStubs_resolved:
  "\<forall>l \<in> set links. validHref (href l) \<longrightarrow> newURL e (the (href l)) \<noteq> None \<Longrightarrow>
   linkStubs e links =
     Some (map (\<lambda>l. stubOf (the (href l)) (linkText l) (the (newURL e (the (href l)))))
             (filter (\<lambda>l. validHref (href l)) links))"
  by (induction links) auto

lemma extractIndexSections_Some_nonempty:
  "extractIndexSections e html = Some stubs \<Longrightarrow> stubs \<noteq> []"
  by (auto simp: extractIndexSections_def split: option.splits if_splits)

text \<open>
  C7, as amended. Extraction of the index sections either throws or returns a list of
  stubs that is not empty. It throws exactly when \<^verbatim>\<open>new URL\<close> rejects the href of a
  link, of the first selector that has links, that passes the filter. When no selector
  yields a link, and when every link found is filtered out, it returns the single
  default stub, whose id is \<^verbatim>\<open>index\<close> and whose url is the base URL.
\<close>

theorem extractIndexSections_nonempty:
  "(extractIndexSections e html = None \<longleftrightarrow>
      (\<exists>links l. firstLinks (cheerioLinks e html) selectors = Some links \<and> l \<in> set links \<and>
         validHref (href l) \<and> newURL e (the (href l)) = None)) \<and>
   (extractIndexSections e html = Some stubs \<longrightarrow> stubs \<noteq> []) \<and>
   ((\<forall>selector \<in> set selectors. cheerioLinks e html selector = []) \<longrightarrow>
      extractIndexSections e html = Some [defaultSection]) \<and>
   (firstLinks (cheerioLinks e html) selectors = Some links \<and>
    (\<forall>l \<in> set links. \<not> validHref (href l)) \<longrightarrow>
      extractIndexSections e html = Some [defaultSection]) \<and>
   id' defaultSection = lit ''index'' \<and> url defaultSection = BASE_URL"
proof (intro conjI impI)
  show "extractIndexSections e html = None \<longleftrightarrow>
      (\<exists>links l. firstLinks (cheerioLinks e html) selectors = Some links \<and> l \<in> set links \<and>
         validHref (href l) \<and> newURL e (the (href l)) = None)"
    by (rule extractIndexSections_None_iff)
next
  assume "extractIndexSections e html = Some stubs"
  then show "stubs \<noteq> []" by (rule extractIndexSections_Some_nonempty)
next
  assume "\<forall>selector \<in> set selectors. cheerioLinks e html selector = []"
  then have "firstLinks (cheerioLinks e html) selectors = None"
    by (simp only: firstLinks_None_iff)
  then show "extractIndexSections e html = Some [defaultSection]"
    by (simp add: extractIndexSections_def)
next
  assume a: "firstLinks (cheerioLinks e html) selectors = Some links \<and>
    (\<forall>l \<in> set links. \<not> validHref (href l))"
  then have "linkStubs e links = Some []"
    using linkStubs_resolved [of links e] by (simp add: filter_empty_conv)
  with a show "extractIndexSections e html = Some [defaultSection]"
    by (simp add: extractIndexSections_def)
next
  show "id' defaultSection = lit ''index''" by (simp add: defaultSection_def)
  show "url defaultSection = BASE_URL" by (simp add: defaultSection_def)
qed

lemma demo_firstLinks:
  "firstLinks (cheerioLinks demoEnv (lit ''<index>'')) selectors = Some demoLinks"
  "firstLinks (cheerioLinks anchorsEnv (lit ''<index>'')) selectors =
     Some [\<lparr> href = Some (lit ''#top''), linkText = lit ''Top'' \<rparr>,
           \<lparr> href = Some (lit ''https://github.com/avwo/whistle''), linkText = lit ''GitHub'' \<rparr>,
           \<lparr> href = None, linkText = lit ''Menu'' \<rparr>]"
  by (simp_all add: selectors_def demo_defs)

theorem extractIndexSections_nonempty_witness:
  "extractIndexSections demoEnv (lit ''<index>'') =
     Some [rulesSection\<lparr>content := []\<rparr>, pluginsSection\<lparr>content := []\<rparr>] \<and>
   [rulesSection\<lparr>content := []\<rparr>, pluginsSection\<lparr>content := []\<rparr>] \<noteq> [] \<and>
   extractIndexSections demoEnv (lit ''<other>'') = Some [defaultSection] \<and>
   extractIndexSections anchorsEnv (lit ''<index>'') = Some [defaultSection] \<and>
   extractIndexSections brokenLinkEnv (lit ''<index>'') = None"
proof -
  have a: "\<forall>selector \<in> set selectors. cheerioLinks demoEnv (lit ''<other>'') selector = []"
    by (simp add: selectors_def demo_defs)
  have b: "\<forall>l \<in> set [\<lparr> href = Some (lit ''#top''), linkText = lit ''Top'' \<rparr>,
           \<lparr> href = Some (lit ''https://github.com/avwo/whistle''), linkText = lit ''GitHub'' \<rparr>,
           \<lparr> href = None, linkText = lit ''Menu'' \<rparr>]. \<not> validHref (href l)"
    by (simp add: validHref_def string_defs)
  have c: "firstLinks (cheerioLinks brokenLinkEnv (lit ''<index>'')) selectors =
      Some [\<lparr> href = Some (lit ''//''), linkText = lit ''Home'' \<rparr>]"
    "validHref (Some (lit ''//''))" "newURL brokenLinkEnv (lit ''//'') = None"
    by (simp_all add: selectors_def demo_defs validHref_def string_defs)
  have d: "\<exists>links l. firstLinks (cheerioLinks brokenLinkEnv (lit ''<index>'')) selectors = Some links \<and>
      l \<in> set links \<and> validHref (href l) \<and> newURL brokenLinkEnv (the (href l)) = None"
    using c by (intro exI [of _ "[\<lparr> href = Some (lit ''//''), linkText = lit ''Home'' \<rparr>]"]
      exI [of _ "\<lparr> href = Some (lit ''//''), linkText = lit ''Home'' \<rparr>"]) simp
  have 1: "[rulesSection\<lparr>content := []\<rparr>, pluginsSection\<lparr>content := []\<rparr>] \<noteq> []"
    by (rule extractIndexSections_nonempty
        [THEN conjunct2, THEN conjunct1, THEN mp, OF demo_index])
  have 2: "extractIndexSections demoEnv (lit ''<other>'') = Some [defaultSection]"
    by (rule extractIndexSections_nonempty
        [THEN conjunct2, THEN conjunct2, THEN conjunct1, THEN mp, OF a])
  have 3: "extractIndexSections anchorsEnv (lit ''<index>'') = Some [defaultSection]"
    by (rule extractIndexSections_nonempty
        [THEN conjunct2, THEN conjunct2, THEN conjunct2, THEN conjunct1, THEN mp,
         OF conjI [OF demo_firstLinks(2) b]])
  have 4: "extractIndexSections brokenLinkEnv (lit ''<index>'') = None"
    by (rule extractIndexSections_nonempty [THEN conjunct1, THEN iffD2, OF d])
  from demo_index 1 2 3 4 show ?thesis by (simp only: simp_thms)
qed

theorem extractIndexSections_nonempty_counterexample:
  "cheerioLinks brokenLinkEnv (lit ''<index>'') (lit ''.menu a'') =
     [\<lparr> href = Some (lit ''//''), linkText = lit ''Home'' \<rparr>] \<and>
   newURL brokenLinkEnv (lit ''//'') = None \<and>
   extractIndexSections brokenLinkEnv (lit ''<index>'') = None"
  by (simp add: index_defs string_defs demo_defs)













section \<open>The excerpt of a match in the content\<close>

lemma lowerUnit_single: "c < 256 \<Longrightarrow> \<exists>x. lowerUnit c = [x]"
  by (simp add: lowerUnit_def)

lemma toLowerCase_Cons: "toLowerCase (c # s) = lowerUnit c @ toLowerCase s"
  by (simp add: toLowerCase_def)

lemma toLowerCase_length: "\<forall>u \<in> set s. u < 256 \<Longrightarrow> length (toLowerCase s) = length s"
proof (induction s)
  case Nil
  then show ?case by (simp add: toLowerCase_def)
next
  case (Cons c s)
  then obtain x where "lowerUnit c = [x]" using lowerUnit_single [of c] by auto
  with Cons show ?case by (simp add: toLowerCase_Cons)
qed

lemma toLowerCase_drop:
  "\<forall>u \<in> set s. u < 256 \<Longrightarrow> toLowerCase (drop n s) = drop n (toLowerCase s)"
proof (induction s arbitrary: n)
  case Nil
  then show ?case by (simp add: toLowerCase_def)
next
  case (Cons c s)
  then obtain x where x: "lowerUnit c = [x]" using lowerUnit_single [of c] by auto
  show ?case
  proof (cases n)
    case 0
    then show ?thesis by simp
  next
    case (Suc m)
    with Cons x show ?thesis by (simp add: toLowerCase_Cons)
  qed
qed

lemma toLowerCase_take:
  "\<forall>u \<in> set s. u < 256 \<Longrightarrow> toLowerCase (take n s) = take n (toLowerCase s)"
proof (induction s arbitrary: n)
  case Nil
  then show ?case by (simp add: toLowerCase_def)
next
  case (Cons c s)
  then obtain x where x: "lowerUnit c = [x]" using lowerUnit_single [of c] by auto
  show ?case
  proof (cases n)
    case 0
    then show ?thesis by (simp add: toLowerCase_def)
  next
    case (Suc m)
    with Cons x show ?thesis by (simp add: toLowerCase_Cons)
  qed
qed

lemma indexFrom_first:
  "indexFrom s q k \<noteq> - 1 \<Longrightarrow> 0 \<le> k \<Longrightarrow>
   k \<le> indexFrom s q k \<and> indexFrom s q k \<le> k + int (length s) \<and>
   startsWith (drop (nat (indexFrom s q k - k)) s) q \<and>
   (\<forall>j < nat (indexFrom s q k - k). \<not> startsWith (drop j s) q)"
proof (induction s arbitrary: k)
  case Nil
  then show ?case by (simp split: if_splits)
next
  case (Cons c s)
  show ?case
  proof (cases "startsWith (c # s) q")
    case True
    then show ?thesis by simp
  next
    case False
    with Cons.prems have r: "indexFrom s q (k + 1) \<noteq> - 1" by simp
    from Cons.IH [OF r] Cons.prems(2)
    have ih: "k + 1 \<le> indexFrom s q (k + 1)"
      "indexFrom s q (k + 1) \<le> k + 1 + int (length s)"
      "startsWith (drop (nat (indexFrom s q (k + 1) - (k + 1))) s) q"
      "\<forall>j < nat (indexFrom s q (k + 1) - (k + 1)). \<not> startsWith (drop j s) q"
      by simp_all
    define m where "m = nat (indexFrom s q (k + 1) - (k + 1))"
    from ih(1) have m: "nat (indexFrom s q (k + 1) - k) = Suc m"
      "nat (indexFrom s q (k + 1) - (k + 1)) = m"
      unfolding m_def by arith+
    have least: "\<forall>j < Suc m. \<not> startsWith (drop j (c # s)) q"
    proof (intro allI impI)
      fix j
      assume "j < Suc m"
      then show "\<not> startsWith (drop j (c # s)) q"
        using False ih(4) m(2) by (cases j) simp_all
    qed
    from ih(2) have "indexFrom s q (k + 1) \<le> k + int (length (c # s))" by simp
    with False ih(1,3) m least show ?thesis by simp
  qed
qed

text \<open>
  For a content and a query of units below 256 (Basic Latin and Latin-1, where the
  table of lower case is that of JavaScript and keeps the length), the excerpt of a
  match in the content is what the code sets out to compute. \<open>i\<close> is the first position at which the query occurs in the content, case
  ignored; the excerpt is the window from \<open>i - 100\<close> (or from 0) to
  \<open>i + length query + 100\<close> (or to the end of the content), with \<^verbatim>\<open>...\<close> in front
  exactly when the window starts after position 0 and \<^verbatim>\<open>...\<close> behind exactly when it
  ends before the end of the content; the window holds the match, \<open>i - (i - 100)\<close> units
  after its start.
\<close>

theorem excerpt_window:
  assumes "\<forall>u \<in> set (content section). u < 256" and "\<forall>u \<in> set query. u < 256"
    and "\<exists>xs ys. toLowerCase (content section) = xs @ toLowerCase query @ ys"
  shows "\<exists>i. int i = indexOf (toLowerCase (content section)) (toLowerCase query) \<and>
     i + length query \<le> length (content section) \<and>
     toLowerCase (take (length query) (drop i (content section))) = toLowerCase query \<and>
     (\<forall>j < i. toLowerCase (take (length query) (drop j (content section))) \<noteq> toLowerCase query) \<and>
     excerptOf query section =
       (if 100 < i then lit ''...'' else []) @
       take (min (length (content section)) (i + length query + 100) - (i - 100))
         (drop (i - 100) (content section)) @
       (if i + length query + 100 < length (content section) then lit ''...'' else []) \<and>
     take (length query)
       (drop (i - (i - 100))
          (take (min (length (content section)) (i + length query + 100) - (i - 100))
             (drop (i - 100) (content section)))) =
       take (length query) (drop i (content section))"
proof -
  define c where "c = content section"
  define lc where "lc = toLowerCase c"
  define lq where "lq = toLowerCase query"
  define i where "i = nat (indexOf lc lq)"
  have len: "length lc = length c" "length lq = length query"
    using assms(1,2) by (simp_all add: lc_def lq_def c_def toLowerCase_length)
  from assms(3) have found: "indexFrom lc lq 0 \<noteq> - 1"
    using includesStr_iff [of lc lq] by (simp add: includesStr_def indexOf_def lc_def lq_def c_def)
  from indexFrom_first [OF found]
  have first: "0 \<le> indexOf lc lq" "indexOf lc lq \<le> int (length lc)"
    "startsWith (drop i lc) lq" "\<forall>j < i. \<not> startsWith (drop j lc) lq"
    by (simp_all add: indexOf_def i_def)
  then have idx: "int i = indexOf lc lq" and bound: "i \<le> length c"
    using len by (simp_all add: i_def)
  from first(3) obtain ys where ys: "drop i lc = lq @ ys"
    by (auto simp: startsWith_iff)
  then have "length lq \<le> length lc - i"
    by (metis length_append length_drop le_add1)
  with bound len have fits: "i + length query \<le> length c" by simp
  have low: "toLowerCase (take n (drop j c)) = take n (drop j lc)" for n j
  proof -
    have "\<forall>u \<in> set (drop j c). u < 256" using assms(1) by (auto simp: c_def dest: in_set_dropD)
    then show ?thesis
      using assms(1) by (simp add: toLowerCase_take toLowerCase_drop lc_def c_def)
  qed
  have match: "toLowerCase (take (length query) (drop i c)) = lq"
    using ys len by (simp add: low)
  have least: "\<forall>j < i. toLowerCase (take (length query) (drop j c)) \<noteq> lq"
  proof (intro allI impI notI)
    fix j
    assume "j < i" and "toLowerCase (take (length query) (drop j c)) = lq"
    then have "take (length lq) (drop j lc) = lq" using len by (simp add: low)
    then have "drop j lc = lq @ drop (length lq) (drop j lc)"
      by (metis append_take_drop_id)
    then have "startsWith (drop j lc) lq" unfolding startsWith_iff by blast
    with first(4) \<open>j < i\<close> show False by simp
  qed
  have sub: "substring c (max 0 (int i - 100)) (min (int (length c)) (int i + int (length query) + 100)) =
      take (min (length c) (i + length query + 100) - (i - 100)) (drop (i - 100) c)"
  proof -
    have a: "clampIndex c (max 0 (int i - 100)) = i - 100"
      using bound by (simp add: clampIndex_def)
    have b: "clampIndex c (min (int (length c)) (int i + int (length query) + 100)) =
        min (length c) (i + length query + 100)"
      unfolding clampIndex_def by (simp add: min_def; arith)
    have "i - 100 \<le> min (length c) (i + length query + 100)" using bound by arith
    then show ?thesis
      by (simp only: substring_def a b Let_def min_absorb1 max_absorb2)
  qed
  have "excerptOf query section =
       (if 100 < i then lit ''...'' else []) @
       take (min (length c) (i + length query + 100) - (i - 100)) (drop (i - 100) c) @
       (if i + length query + 100 < length c then lit ''...'' else [])"
  proof -
    have s: "(0 < max 0 (int i - 100)) = (100 < i)" by auto
    have e: "(min (int (length c)) (int i + int (length query) + 100) < int (length c)) =
        (i + length query + 100 < length c)"
      by auto
    have n: "indexOf lc lq \<noteq> - 1" using found by (simp add: indexOf_def)
    show ?thesis
      unfolding excerptOf_def Let_def
      unfolding c_def [symmetric] lc_def [symmetric] lq_def [symmetric] idx [symmetric]
      using n unfolding idx [symmetric] sub s e
      by (simp del: lit_Cons)
  qed
  moreover have "take (length query)
       (drop (i - (i - 100))
          (take (min (length c) (i + length query + 100) - (i - 100)) (drop (i - 100) c))) =
       take (length query) (drop i c)"
    using fits by (simp add: drop_take min_def)
  ultimately show ?thesis
    using idx fits match least unfolding c_def lc_def lq_def by blast
qed

theorem excerpt_window_witness:
  "(\<forall>u \<in> set (content pluginsSection). u < 256) \<and> (\<forall>u \<in> set (lit ''plugin''). u < 256) \<and>
   indexOf (toLowerCase (content pluginsSection)) (toLowerCase (lit ''plugin'')) = 24 \<and>
   excerptOf (lit ''plugin'') pluginsSection = content pluginsSection"
proof -
  have a: "\<forall>u \<in> set (content pluginsSection). u < 256" "\<forall>u \<in> set (lit ''plugin''). u < 256"
    by (simp_all add: pluginsSection_def)
  have b: "\<exists>xs ys. toLowerCase (content pluginsSection) = xs @ toLowerCase (lit ''plugin'') @ ys"
    unfolding includesStr_iff [symmetric] by (simp add: pluginsSection_def string_defs)
  have c: "indexOf (toLowerCase (content pluginsSection)) (toLowerCase (lit ''plugin'')) = 24"
    by (simp add: pluginsSection_def string_defs)
  from excerpt_window [OF a b] obtain i where
    "int i = indexOf (toLowerCase (content pluginsSection)) (toLowerCase (lit ''plugin''))"
    "excerptOf (lit ''plugin'') pluginsSection =
       (if 100 < i then lit ''...'' else []) @
       take (min (length (content pluginsSection)) (i + length (lit ''plugin'') + 100) - (i - 100))
         (drop (i - 100) (content pluginsSection)) @
       (if i + length (lit ''plugin'') + 100 < length (content pluginsSection) then lit ''...'' else [])"
    by blast
  with c have "i = 24" and "excerptOf (lit ''plugin'') pluginsSection =
       (if 100 < i then lit ''...'' else []) @
       take (min (length (content pluginsSection)) (i + length (lit ''plugin'') + 100) - (i - 100))
         (drop (i - 100) (content pluginsSection)) @
       (if i + length (lit ''plugin'') + 100 < length (content pluginsSection) then lit ''...'' else [])"
    by simp_all
  then have "excerptOf (lit ''plugin'') pluginsSection = content pluginsSection"
    by (simp add: pluginsSection_def)
  with a c show ?thesis by simp
qed

lemma replicate_numeral_unfold: "replicate (numeral k) x = x # replicate (pred_numeral k) x"
  by (simp add: numeral_eq_Suc)

lemma dotted_excerpt: "excerptOf (lit ''abc'') dottedSection = lit ''...bc''"
  by (simp add: excerptOf_def Let_def dottedSection_def indexOf_def toLowerCase_def lowerUnit_def
      substring_def clampIndex_def replicate_numeral_unfold)

lemma dotted_matches: "sectionMatches (lit ''abc'') dottedSection"
  by (simp add: sectionMatches_def includesStr_def dottedSection_def indexOf_def toLowerCase_def
      lowerUnit_def replicate_numeral_unfold)

text \<open>
  C1 at the content \<open>replicate 101 304 @ lit ''abc''\<close> and the query \<^verbatim>\<open>abc\<close>. The query
  occurs in the content at position 101. The lower-cased content is 101 times the two
  units U+0069 U+0307 followed by \<^verbatim>\<open>abc\<close>, so \<^verbatim>\<open>index\<close> is 202, \<^verbatim>\<open>start\<close> is 102
  and \<^verbatim>\<open>end\<close> is 104, the length of the content: the excerpt that \<^verbatim>\<open>search\<close> returns
  is \<^verbatim>\<open>...bc\<close>, which does not contain the match.
\<close>

theorem excerpt_shifted_by_lowercase:
  "content dottedSection = replicate 101 304 @ lit ''abc'' \<and>
   search demoEnv 0 0 (lit ''abc'') dottedState =
     (Inr [\<lparr> sectionId = lit ''dotted'', sectionTitle = lit ''Dotted'',
             matchedContent = lit ''...bc'',
             resultUrl = lit ''https://wproxy.org/whistle/dotted.html'' \<rparr>],
      dottedState)"
proof -
  have "initialize demoEnv 0 0 dottedState = (Inr (), dottedState)"
    by (simp add: initialize_def dottedState_def CACHE_TTL_def)
  moreover have "searchSections (lit ''abc'') (map snd (sections dottedState)) =
      [resultOf (lit ''abc'') dottedSection]"
    using dotted_matches by (simp add: dottedState_def del: lit_Cons)
  moreover have "resultOf (lit ''abc'') dottedSection =
      \<lparr> sectionId = lit ''dotted'', sectionTitle = lit ''Dotted'',
        matchedContent = lit ''...bc'',
        resultUrl = lit ''https://wproxy.org/whistle/dotted.html'' \<rparr>"
    unfolding resultOf_def dotted_excerpt by (simp add: dottedSection_def)
  ultimately have "search demoEnv 0 0 (lit ''abc'') dottedState =
     (Inr [\<lparr> sectionId = lit ''dotted'', sectionTitle = lit ''Dotted'',
             matchedContent = lit ''...bc'',
             resultUrl = lit ''https://wproxy.org/whistle/dotted.html'' \<rparr>],
      dottedState)"
    unfolding search_def by (simp del: lit_Cons)
  moreover have "content dottedSection = replicate 101 304 @ lit ''abc''"
    by (simp add: dottedSection_def del: lit_Cons)
  ultimately show ?thesis by (rule conjI [rotated])
qed

end
